theory Spec2Isabelle
  imports Main "HOL-Library.Sublist"
begin

section \<open>JavaScript string primitives used by the sources\<close>

text \<open>
  A \<^typ>\<open>string\<close> holds the UTF-8 encoding of the JavaScript string it stands for. The
  characters the modelled functions look for are ASCII (the slash, the dot, digits and the
  letters of error messages), apart from the box-drawing characters of the tree listing
  and the white space outside ASCII, which are matched as the byte sequences of their
  encoding. A lead byte never occurs inside the encoding of another character, so a
  search for such a sequence finds the character and nothing else.
\<close>

definition slash :: char where
  "slash = CHR ''/''"

text \<open>\<^verbatim>\<open>s.startsWith(p)\<close>\<close>

definition startsWith :: "string \<Rightarrow> string \<Rightarrow> bool" where
  "startsWith s p = (take (length p) s = p)"

text \<open>\<^verbatim>\<open>s.endsWith("/")\<close>\<close>

definition endsWithSlash :: "string \<Rightarrow> bool" where
  "endsWithSlash s = (s \<noteq> [] \<and> last s = slash)"

text \<open>\<^verbatim>\<open>s.replace(/\/$/, "")\<close>: drops one trailing slash.\<close>

definition stripTrailingSlash :: "string \<Rightarrow> string" where
  "stripTrailingSlash s = (if endsWithSlash s then butlast s else s)"

text \<open>\<^verbatim>\<open>s.replace(/^\//, "")\<close>: drops one leading slash.\<close>

fun stripLeadingSlash :: "string \<Rightarrow> string" where
  "stripLeadingSlash [] = []"
| "stripLeadingSlash (c # cs) = (if c = slash then cs else c # cs)"

text \<open>\<^verbatim>\<open>s.replace(/\/+/g, "/")\<close>: every run of slashes becomes one slash.\<close>

fun collapseSlashes :: "string \<Rightarrow> string" where
  "collapseSlashes [] = []"
| "collapseSlashes [c] = [c]"
| "collapseSlashes (c # d # cs) =
     (if c = slash \<and> d = slash then collapseSlashes (d # cs)
      else c # collapseSlashes (d # cs))"

section \<open>Path mapping between device paths and workspace-relative paths\<close>

text \<open>
  \<^verbatim>\<open>toLocalRelative(devicePath, rootPath)\<close> (module function of boardOperations;
  \<^verbatim>\<open>BoardOperations.relFromDevice\<close> has the same body).
\<close>

definition toLocalRelative :: "string \<Rightarrow> string \<Rightarrow> string" where
  "toLocalRelative devicePath rootPath =
     (let normRoot = (if rootPath = ''/'' then ''/'' else stripTrailingSlash rootPath) in
      if normRoot = ''/'' then stripLeadingSlash devicePath
      else if startsWith devicePath (normRoot @ ''/'')
        then drop (length normRoot + 1) devicePath
      else if devicePath = normRoot then ''''
      else stripLeadingSlash devicePath)"

definition relFromDevice :: "string \<Rightarrow> string \<Rightarrow> string" where
  "relFromDevice devicePath rootPath = toLocalRelative devicePath rootPath"

text \<open>\<^verbatim>\<open>BoardOperations.toDevicePath(localRel, rootPath)\<close>\<close>

definition toDevicePath :: "string \<Rightarrow> string \<Rightarrow> string" where
  "toDevicePath localRel rootPath =
     (let normalizedLocalPath = stripTrailingSlash (collapseSlashes localRel);
          normalizedRootPath = stripTrailingSlash (collapseSlashes rootPath) in
      if normalizedRootPath = '''' then ''/'' @ normalizedLocalPath
      else if normalizedLocalPath = '''' then normalizedRootPath
      else normalizedRootPath @ ''/'' @ normalizedLocalPath)"

text \<open>
  The device path of the workspace-relative path \<open>x/y.py\<close> under a remote root, with the
  root's trailing slash normalised away: \<open>/x/y.py\<close> under \<open>/\<close>, \<open>/app/x/y.py\<close> under
  \<open>/app\<close> and under \<open>/app/\<close>.
\<close>

definition deviceOf :: "string \<Rightarrow> string \<Rightarrow> string \<Rightarrow> string" where
  "deviceOf rootPath x y =
     (if rootPath = ''/'' then '''' else stripTrailingSlash rootPath) @ ''/'' @ x @ ''/'' @ y @ ''.py''"

section \<open>More string primitives\<close>

text \<open>\<^verbatim>\<open>s.includes(sub)\<close>\<close>

fun includesStr :: "string \<Rightarrow> string \<Rightarrow> bool" where
  "includesStr [] sub = (sub = [])"
| "includesStr (c # cs) sub = (startsWith (c # cs) sub \<or> includesStr cs sub)"

text \<open>
  \<^verbatim>\<open>s.toLowerCase()\<close>, as far as the sources can tell: they only search the result for
  ASCII texts or compare it with them. The ASCII letters are lowered, and so are the two
  characters outside ASCII whose lower case has an ASCII letter in it: the Kelvin sign
  U+212A becomes \<open>k\<close>, and the dotted capital I U+0130 becomes \<open>i\<close> followed by the
  combining dot U+0307. Every other character outside ASCII is kept as it is; its lower
  case is outside ASCII as well. \<open>skip\<close> counts the bytes still to pass over.
\<close>

definition lowerChar :: "char \<Rightarrow> char" where
  "lowerChar c = (let n = (of_char c :: int) in if 65 \<le> n \<and> n \<le> 90 then char_of (n + 32) else c)"

definition kelvinSign :: string where
  "kelvinSign = [CHR 0xE2, CHR 0x84, CHR 0xAA]"

definition dottedCapitalI :: string where
  "dottedCapitalI = [CHR 0xC4, CHR 0xB0]"

fun lowerFrom :: "nat \<Rightarrow> string \<Rightarrow> string" where
  "lowerFrom skip [] = []"
| "lowerFrom (Suc k) (c # cs) = lowerFrom k cs"
| "lowerFrom 0 (c # cs) =
     (if (of_char c :: int) < 128 then lowerChar c # lowerFrom 0 cs
      else if startsWith (c # cs) kelvinSign then CHR ''k'' # lowerFrom 2 cs
      else if startsWith (c # cs) dottedCapitalI
        then CHR ''i'' # CHR 0xCC # CHR 0x87 # lowerFrom 1 cs
      else c # lowerFrom 0 cs)"

definition toLowerCase :: "string \<Rightarrow> string" where
  "toLowerCase s = lowerFrom 0 s"

text \<open>
  White space as \<^verbatim>\<open>trim\<close>, the regular expression class \<^verbatim>\<open>\s\<close> and \<^verbatim>\<open>parseInt\<close> see it:
  the ASCII characters tab, line feed, vertical tab, form feed, carriage return and blank,
  and outside ASCII the characters U+00A0, U+1680, U+2000 to U+200A, U+2028, U+2029,
  U+202F, U+205F, U+3000 and U+FEFF.
\<close>

definition isAsciiSpace :: "char \<Rightarrow> bool" where
  "isAsciiSpace c = (c = CHR '' '' \<or> c = CHR 0x09 \<or> c = CHR 0x0A \<or> c = CHR 0x0B \<or> c = CHR 0x0C
                     \<or> c = CHR 0x0D)"

definition wideSpaces :: "string list" where
  "wideSpaces =
     [CHR 0xC2, CHR 0xA0] # [CHR 0xE1, CHR 0x9A, CHR 0x80]
     # map (\<lambda>b. [CHR 0xE2, CHR 0x80, b])
         [CHR 0x80, CHR 0x81, CHR 0x82, CHR 0x83, CHR 0x84, CHR 0x85, CHR 0x86, CHR 0x87,
          CHR 0x88, CHR 0x89, CHR 0x8A, CHR 0xA8, CHR 0xA9, CHR 0xAF]
     @ [CHR 0xE2, CHR 0x81, CHR 0x9F] # [CHR 0xE3, CHR 0x80, CHR 0x80]
     # [CHR 0xEF, CHR 0xBB, CHR 0xBF] # []"

text \<open>
  The number of bytes of the white-space character a string begins with, \<open>0\<close> when it
  begins with none. \<open>wide\<close> is the table of the encodings outside ASCII; reading a string
  from its end takes the table of the reversed encodings.
\<close>

definition spaceLen :: "string list \<Rightarrow> string \<Rightarrow> nat" where
  "spaceLen wide s =
     (case s of
        [] \<Rightarrow> 0
      | c # cs \<Rightarrow>
          if (of_char c :: int) < 128 then (if isAsciiSpace c then 1 else 0)
          else (case filter (startsWith s) wide of [] \<Rightarrow> 0 | p # ps \<Rightarrow> length p))"

fun dropSpaces :: "string list \<Rightarrow> nat \<Rightarrow> string \<Rightarrow> string" where
  "dropSpaces wide skip [] = []"
| "dropSpaces wide (Suc k) (c # cs) = dropSpaces wide k cs"
| "dropSpaces wide 0 (c # cs) =
     (let n = spaceLen wide (c # cs) in
      if n = 0 then c # cs else dropSpaces wide (n - 1) cs)"

text \<open>\<^verbatim>\<open>s.trimStart()\<close> (also the white space \<^verbatim>\<open>parseInt\<close> passes over) and \<^verbatim>\<open>s.trim()\<close>\<close>

definition trimStart :: "string \<Rightarrow> string" where
  "trimStart s = dropSpaces wideSpaces 0 s"

definition trim :: "string \<Rightarrow> string" where
  "trim s = rev (dropSpaces (map rev wideSpaces) 0 (rev (trimStart s)))"

text \<open>
  \<^verbatim>\<open>s.length\<close>: the number of UTF-16 code units. A continuation byte adds none, the lead
  byte of a four-byte encoding adds two (a surrogate pair), every other byte one.
\<close>

definition unitsOfByte :: "char \<Rightarrow> nat" where
  "unitsOfByte c =
     (let n = (of_char c :: int) in
      if 128 \<le> n \<and> n < 192 then 0 else if 240 \<le> n then 2 else 1)"

definition utf16Length :: "string \<Rightarrow> nat" where
  "utf16Length s = sum_list (map unitsOfByte s)"

text \<open>\<^verbatim>\<open>s.split(sep)\<close> for a one-character separator: never empty, the empty string gives one empty part.\<close>

fun splitOn :: "char \<Rightarrow> string \<Rightarrow> string list" where
  "splitOn sep [] = [] # []"
| "splitOn sep (c # cs) =
     (if c = sep then [] # splitOn sep cs
      else (case splitOn sep cs of
              [] \<Rightarrow> [c] # []
            | p # ps \<Rightarrow> (c # p) # ps))"

text \<open>\<^verbatim>\<open>s.split("/").filter(p => p)\<close>: the non-empty segments of a path.\<close>

definition segments :: "string \<Rightarrow> string list" where
  "segments s = filter (\<lambda>p. p \<noteq> []) (splitOn slash s)"

text \<open>\<^verbatim>\<open>s.split(/\r?\n/)\<close>: split at line feeds, a carriage return before one is dropped.\<close>

definition splitLines :: "string \<Rightarrow> string list" where
  "splitLines s =
     (let ps = splitOn (CHR 0x0A) s in
      map (\<lambda>l. if l \<noteq> [] \<and> last l = CHR 0x0D then butlast l else l) (butlast ps) @ [last ps])"

text \<open>\<^verbatim>\<open>s.split(/\s+/).filter(part => part.length > 0)\<close>: the blank-separated words.\<close>

fun wordsFrom :: "nat \<Rightarrow> string \<Rightarrow> string \<Rightarrow> string list" where
  "wordsFrom skip cur [] = (if cur = [] then [] else [cur])"
| "wordsFrom (Suc k) cur (c # cs) = wordsFrom k cur cs"
| "wordsFrom 0 cur (c # cs) =
     (let n = spaceLen wideSpaces (c # cs) in
      if n = 0 then wordsFrom 0 (cur @ [c]) cs
      else if cur = [] then wordsFrom (n - 1) [] cs
      else cur # wordsFrom (n - 1) [] cs)"

definition wordsOf :: "string \<Rightarrow> string list" where
  "wordsOf s = wordsFrom 0 [] s"

text \<open>\<^verbatim>\<open>parts.join(" ")\<close>\<close>

fun joinWith :: "string \<Rightarrow> string list \<Rightarrow> string" where
  "joinWith sep [] = []"
| "joinWith sep [p] = p"
| "joinWith sep (p # q # ps) = p @ sep @ joinWith sep (q # ps)"

text \<open>
  The numbers \<^verbatim>\<open>parseInt\<close> can return: \<open>NaN\<close>, a double of integer value, or an infinity.
  Negative zero is not told apart from zero; \<^verbatim>\<open>||\<close>, \<^verbatim>\<open>===\<close> and \<^verbatim>\<open>&\<close>, the only
  operations the sources apply to a parsed number, do not tell them apart either.
\<close>

datatype number = NaN | Num int | Infinity | MinusInfinity

text \<open>
  The double nearest to an integer. Below \<open>2\<^sup>5\<^sup>3 = 9007199254740992\<close> every integer is a
  double. Above, the integer is cut to its 53 leading bits, rounded to the nearest, a tie
  to the even one; a result of \<open>2\<^sup>1\<^sup>0\<^sup>2\<^sup>4\<close> or more is an infinity.
\<close>

function exponentOf :: "int \<Rightarrow> nat" where
  "exponentOf a = (if a < 9007199254740992 then 0 else Suc (exponentOf (a div 2)))"
  by pat_completeness auto
termination
  by (relation "measure nat") auto

definition roundLarge :: "int \<Rightarrow> number" where
  "roundLarge x =
     (let a = \<bar>x\<bar>;
          e = exponentOf a;
          q = a div 2 ^ e;
          r = a mod 2 ^ e;
          q' = (if 2 ^ e < 2 * r \<or> (2 * r = 2 ^ e \<and> odd q) then q + 1 else q)
      in if e < 971 then Num (if x < 0 then - (q' * 2 ^ e) else q' * 2 ^ e)
         else if 2 ^ 1024 \<le> q' * 2 ^ e then (if x < 0 then MinusInfinity else Infinity)
         else Num (if x < 0 then - (q' * 2 ^ e) else q' * 2 ^ e))"

definition toNumber :: "int \<Rightarrow> number" where
  "toNumber x = (if \<bar>x\<bar> < 9007199254740992 then Num x else roundLarge x)"

text \<open>
  \<^verbatim>\<open>parseInt(s)\<close> without radix: leading white space, an optional sign, then decimal
  digits, or hexadecimal digits after \<open>0x\<close>, read as an exact integer and rounded to a
  double; \<open>NaN\<close> when there is no digit. (For more than twenty decimal digits the language
  lets an implementation round the digits after the twentieth first; the model rounds the
  exact value, as the V8 engine of the editor does.)
\<close>

definition digitVal :: "char \<Rightarrow> int option" where
  "digitVal c =
     (let n = (of_char c :: int) in
      if 48 \<le> n \<and> n \<le> 57 then Some (n - 48)
      else if 97 \<le> n \<and> n \<le> 102 then Some (n - 87)
      else if 65 \<le> n \<and> n \<le> 70 then Some (n - 55)
      else None)"

fun readDigits :: "int \<Rightarrow> string \<Rightarrow> int option \<Rightarrow> int option" where
  "readDigits base [] acc = acc"
| "readDigits base (c # cs) acc =
     (case digitVal c of
        None \<Rightarrow> acc
      | Some d \<Rightarrow>
          if d < base
          then readDigits base cs (Some ((case acc of None \<Rightarrow> 0 | Some a \<Rightarrow> a) * base + d))
          else acc)"

definition parseUnsigned :: "string \<Rightarrow> int option" where
  "parseUnsigned s =
     (if startsWith s ''0x'' \<or> startsWith s ''0X'' then readDigits 16 (drop 2 s) None
      else readDigits 10 s None)"

definition parseInt :: "string \<Rightarrow> number" where
  "parseInt s =
     (let t = trimStart s in
      case t of
        [] \<Rightarrow> NaN
      | c # cs \<Rightarrow>
          if c = CHR ''-''
            then (case parseUnsigned cs of None \<Rightarrow> NaN | Some v \<Rightarrow> toNumber (- v))
          else (case parseUnsigned (if c = CHR ''+'' then cs else t) of
                  None \<Rightarrow> NaN
                | Some v \<Rightarrow> toNumber v))"

text \<open>\<^verbatim>\<open>x || 0\<close> on a number: \<open>NaN\<close> and zero are the falsy numbers.\<close>

definition orZero :: "number \<Rightarrow> number" where
  "orZero x = (if x = NaN then Num 0 else x)"

text \<open>
  \<^verbatim>\<open>(x & mask) !== 0\<close> for a mask of one bit below bit 31: the operand is taken modulo
  \<open>2\<^sup>3\<^sup>2\<close>, and \<open>NaN\<close> and the infinities are taken as \<open>0\<close>.
\<close>

definition hasBit :: "number \<Rightarrow> nat \<Rightarrow> bool" where
  "hasBit x n = (case x of Num v \<Rightarrow> bit v n | _ \<Rightarrow> False)"

section \<open>The external tool, the session state and asynchronous results\<close>

text \<open>
  The board is reached only through the external command-line tool, run as a subprocess
  with an argument vector. One run either succeeds with its standard output or fails with
  its standard error text and the subprocess error's message. The tool is an arbitrary
  function of the argument vector and of everything that happened before, so a theorem
  about all tools covers every behaviour of board and transport. The shell quoting of
  the argument vector into one command line is below this interface.
\<close>

datatype exec_result = ExecOk string | ExecErr string string

datatype event = Exec "string list" | Delay nat

type_synonym tool = "event list \<Rightarrow> string list \<Rightarrow> exec_result"

text \<open>
  The in-memory tree cache holds nodes in a store: node \<open>0\<close> is the root, a node's children
  are indices into the store (the source mutates shared node objects through a map from
  path to node).
\<close>

record tnode =
  nodeName :: string
  nodeIsDir :: bool
  children :: "nat list"
  fullPath :: string

text \<open>One parsed line of the tool's tree output (\<^verbatim>\<open>{fullPath, name, isDir, depth}\<close>).\<close>

record treeLine =
  lineFullPath :: string
  lineName :: string
  lineIsDir :: bool
  depth :: nat

text \<open>
  The wall clock (\<^verbatim>\<open>Date.now()\<close>, in milliseconds) is a function of the history, like the
  tool.
\<close>

type_synonym clock = "event list \<Rightarrow> int"

text \<open>
  The session: the configured connection (\<^verbatim>\<open>mpyWorkbench.connect\<close>), the outcome of
  locating the tool's executable (\<^verbatim>\<open>getMpremotePath\<close>: \<open>None\<close> when no candidate
  answers), the tree cache with its time stamp (\<^verbatim>\<open>globalFileTreeCache\<close>,
  \<^verbatim>\<open>lastTreeUpdate\<close>), the workspace file \<open>.mpy-workbench/tree-paths.json\<close> as a reader
  finds it (its modification time and its entries; \<open>None\<close> when no workspace is open or
  the file is missing or unreadable), whether a workspace is open whose state directory
  can be written, and the history of tool runs and timer delays.

  The connection manager's health flags are left out: \<^verbatim>\<open>executeCommand\<close> sets
  \<^verbatim>\<open>operationInProgress\<close> and clears it again (\<^verbatim>\<open>markOperationStarted\<close> followed at once
  by \<^verbatim>\<open>markHealthy\<close>) before the subprocess is started, so its test of that flag is never
  true, and no other control flow reads the flags.
\<close>

record world =
  connectCfg :: string
  toolPath :: "string option"
  cache :: "tnode list option"
  lastTreeUpdate :: int
  treePathsFile :: "(int \<times> treeLine list) option"
  stateDirWritable :: bool
  events :: "event list"

text \<open>
  An asynchronous function: from a session state to a rejection (\<open>Inl\<close>, the error's
  message) or a resolved value (\<open>Inr\<close>), and the state after it.
\<close>

type_synonym 'a async = "world \<Rightarrow> (string + 'a) \<times> world"

definition resolve :: "'a \<Rightarrow> 'a async" where
  "resolve x w = (Inr x, w)"

definition reject :: "string \<Rightarrow> 'a async" where
  "reject e w = (Inl e, w)"

definition andThen :: "'a async \<Rightarrow> ('a \<Rightarrow> 'b async) \<Rightarrow> 'b async" where
  "andThen m f w = (case m w of (Inl e, w') \<Rightarrow> (Inl e, w') | (Inr x, w') \<Rightarrow> f x w')"

definition tryCatch :: "'a async \<Rightarrow> (string \<Rightarrow> 'a async) \<Rightarrow> 'a async" where
  "tryCatch m h w = (case m w of (Inl e, w') \<Rightarrow> h e w' | (Inr x, w') \<Rightarrow> (Inr x, w'))"

text \<open>\<^verbatim>\<open>String(error?.message || error)\<close>: an error with an empty message prints as \<open>Error\<close>.\<close>

definition errorString :: "string \<Rightarrow> string" where
  "errorString msg = (if msg = [] then ''Error'' else msg)"

section \<open>Running the tool: \<^verbatim>\<open>runMpremote\<close>\<close>

definition isTransient :: "string \<Rightarrow> bool" where
  "isTransient errorStr =
     (includesStr errorStr ''device not configured'' \<or>
      includesStr errorStr ''connection timeout'' \<or>
      includesStr errorStr ''serial read failed'' \<or>
      includesStr errorStr ''failed to access'' \<or>
      includesStr errorStr ''it may be in use by another program'')"

text \<open>
  \<^verbatim>\<open>executeCommand\<close>: \<open>attempt\<close> is the counter before its increment. A failure is
  retried after \<open>500 * attempt\<close> milliseconds while \<open>attempt \<le> maxRetries\<close> and the
  message is a transient one; otherwise the promise is rejected with the message.
\<close>

function executeCommand :: "tool \<Rightarrow> string list \<Rightarrow> nat \<Rightarrow> nat \<Rightarrow> string async" where
  "executeCommand t args maxRetries attempt w =
     (let attempt' = attempt + 1;
          w1 = w\<lparr>events := events w @ [Exec args]\<rparr> in
      case t (events w) args of
        ExecOk out \<Rightarrow> (Inr out, w1)
      | ExecErr err msg \<Rightarrow>
          (let emsg = (if err \<noteq> [] then err else msg);
               errorStr = toLowerCase emsg in
           if attempt' \<le> maxRetries \<and> isTransient errorStr
           then executeCommand t args maxRetries attempt'
                  (w1\<lparr>events := events w1 @ [Delay (500 * attempt')]\<rparr>)
           else (Inl (if emsg = [] then ''mpremote error'' else emsg), w1)))"
  by pat_completeness auto
termination
  by (relation "measure (\<lambda>(t, args, maxRetries, attempt, w). maxRetries - attempt)") auto

declare executeCommand.simps [simp del]

definition runMpremote :: "tool \<Rightarrow> string list \<Rightarrow> bool \<Rightarrow> string async" where
  "runMpremote t args retryOnFailure w =
     (case toolPath w of
        None \<Rightarrow>
          (Inl ''mpremote not found. Please install mpremote: pip install mpremote or pipx install mpremote'', w)
      | Some mpremotePath \<Rightarrow> executeCommand t args (if retryOnFailure then 2 else 0) 0 w)"

section \<open>Operations on the board\<close>

definition normalizeConnect :: "string \<Rightarrow> string" where
  "normalizeConnect c =
     (if startsWith c ''serial://'' then drop 9 c
      else if startsWith c ''serial:/'' then drop 8 c
      else if startsWith c ''cu.'' \<and> \<not> startsWith c ''/dev/'' then ''/dev/'' @ c
      else c)"

text \<open>
  \<^verbatim>\<open>normalizeConnect(config.get("mpyWorkbench.connect", "auto") || "auto")\<close>
\<close>

definition configuredConnect :: "world \<Rightarrow> string" where
  "configuredConnect w = normalizeConnect (if connectCfg w = [] then ''auto'' else connectCfg w)"

text \<open>\<^verbatim>\<open>!connect || connect === "auto"\<close>\<close>

definition noPort :: "string \<Rightarrow> bool" where
  "noPort connect = (connect = [] \<or> connect = ''auto'')"

definition selectPortMsg :: string where
  "selectPortMsg = ''Select a specific serial port first''"

text \<open>\<^verbatim>\<open>p && p !== "/" ? p : "/"\<close>\<close>

definition pathArgOf :: "string \<Rightarrow> string" where
  "pathArgOf p = (if p \<noteq> [] \<and> p \<noteq> ''/'' then p else ''/'')"

definition clearFileTreeCache :: "unit async" where
  "clearFileTreeCache w = (Inr (), w\<lparr>cache := None, lastTreeUpdate := 0\<rparr>)"

definition mkdir :: "tool \<Rightarrow> string \<Rightarrow> unit async" where
  "mkdir t p w =
     (let connect = configuredConnect w in
      if noPort connect then reject selectPortMsg w
      else tryCatch
             (andThen (runMpremote t [''connect'', connect, ''fs'', ''mkdir'', pathArgOf p] True)
                (\<lambda>_. clearFileTreeCache))
             (\<lambda>error. reject error) w)"

definition deleteFile :: "tool \<Rightarrow> string \<Rightarrow> unit async" where
  "deleteFile t p w =
     (let connect = configuredConnect w in
      if noPort connect then reject selectPortMsg w
      else andThen
             (runMpremote t [''connect'', connect, ''exec'',
                             ''import os; os.remove('' @ [CHR 0x27] @ p @ [CHR 0x27] @ '')''] True)
             (\<lambda>_. resolve ()) w)"

definition mvOnDevice :: "tool \<Rightarrow> string \<Rightarrow> string \<Rightarrow> unit async" where
  "mvOnDevice t src dst w =
     (let connect = configuredConnect w in
      if noPort connect then reject selectPortMsg w
      else tryCatch
             (let srcArg = (if src \<noteq> [] \<and> src \<noteq> ''/'' then [CHR 0x22] @ src @ [CHR 0x22] else ''/'');
                  dstArg = (if dst \<noteq> [] \<and> dst \<noteq> ''/'' then [CHR 0x22] @ dst @ [CHR 0x22] else ''/'') in
              andThen (runMpremote t [''connect'', connect, ''fs'', ''mv'', srcArg, dstArg] True)
                (\<lambda>_. clearFileTreeCache))
             (\<lambda>error. reject (''Move/rename failed: '' @ errorString error)) w)"

text \<open>\<^verbatim>\<open>fileExists(p)\<close>: every branch of the handler returns \<open>false\<close>.\<close>

definition fileExists :: "tool \<Rightarrow> string \<Rightarrow> bool async" where
  "fileExists t p w =
     (let connect = configuredConnect w in
      if noPort connect then reject selectPortMsg w
      else tryCatch
             (andThen (runMpremote t [''connect'', connect, ''fs'', ''stat'', pathArgOf p] True)
                (\<lambda>_. resolve True))
             (\<lambda>error.
                let errorStr = toLowerCase (errorString error) in
                if includesStr errorStr ''no such file'' \<or> includesStr errorStr ''file not found''
                   \<or> includesStr errorStr ''does not exist''
                then resolve False
                else if includesStr errorStr ''serialexception''
                   \<or> includesStr errorStr ''device not configured''
                   \<or> includesStr errorStr ''connection failed''
                then resolve False
                else resolve False) w)"

section \<open>Copying to the board\<close>

text \<open>Run an action for its effect and swallow its rejection (\<^verbatim>\<open>try { ... } catch { log }\<close>).\<close>

definition ignoreErrors :: "'a async \<Rightarrow> unit async" where
  "ignoreErrors m = tryCatch (andThen m (\<lambda>_. resolve ())) (\<lambda>_. resolve ())"

text \<open>
  Run the body of a \<^verbatim>\<open>try\<close> block that ends in \<^verbatim>\<open>return\<close>: \<open>True\<close> when it ran through
  (the enclosing function returns), \<open>False\<close> when it was rejected and the handler only logs.
\<close>

definition succeeds :: "'a async \<Rightarrow> bool async" where
  "succeeds m = tryCatch (andThen m (\<lambda>_. resolve True)) (\<lambda>_. resolve False)"

fun forEach :: "'a list \<Rightarrow> ('a \<Rightarrow> unit async) \<Rightarrow> unit async" where
  "forEach [] f = resolve ()"
| "forEach (x # xs) f = andThen (f x) (\<lambda>_. forEach xs f)"

text \<open>\<^verbatim>\<open>s.substring(0, s.lastIndexOf("/"))\<close>: empty when there is no slash.\<close>

definition beforeLastSlash :: "string \<Rightarrow> string" where
  "beforeLastSlash s =
     (if slash \<in> set s then rev (tl (dropWhile (\<lambda>c. c \<noteq> slash) (rev s))) else [])"

text \<open>\<^verbatim>\<open>deviceArg === "/" ? ":" : `:${deviceArg}`\<close>\<close>

definition withPrefix :: "string \<Rightarrow> string" where
  "withPrefix deviceArg = (if deviceArg = ''/'' then '':'' else '':'' @ deviceArg)"

text \<open>
  The first part of both upload functions: \<^verbatim>\<open>mkdir -p\<close> of the parent directory, its
  failure only logged.
\<close>

definition ensureParent :: "tool \<Rightarrow> string \<Rightarrow> string \<Rightarrow> unit async" where
  "ensureParent t connect deviceArg =
     (let parentDir = beforeLastSlash deviceArg in
      if parentDir \<noteq> [] \<and> parentDir \<noteq> ''/''
      then ignoreErrors (runMpremote t [''connect'', connect, ''fs'', ''mkdir'', ''-p'', parentDir] True)
      else resolve ())"

text \<open>
  The recovery after a "no such file or directory" failure: create \<open>/p1\<close>, \<open>/p1/p2\<close>, ...
  for all but the last segment of the device path, failures only logged.
\<close>

definition createLevels :: "tool \<Rightarrow> string \<Rightarrow> string \<Rightarrow> unit async" where
  "createLevels t connect deviceArg =
     (let pathParts = segments deviceArg in
      forEach [1..<length pathParts]
        (\<lambda>i. ignoreErrors
               (runMpremote t [''connect'', connect, ''fs'', ''mkdir'',
                               ''/'' @ joinWith ''/'' (take i pathParts)] False)))"

definition isMissingDirError :: "string \<Rightarrow> bool" where
  "isMissingDirError errorStr =
     (includesStr errorStr ''no such file or directory'' \<or> includesStr errorStr ''file not found'')"

text \<open>
  \<^verbatim>\<open>cpToDevice(localPath, devicePath)\<close>: first its \<^verbatim>\<open>catch\<close> block with the recoveries, then
  the function after its port guard, for the connection \<open>connect\<close>, then the guard in front of
  it.
\<close>

definition cpRecovery :: "tool \<Rightarrow> string \<Rightarrow> string \<Rightarrow> string \<Rightarrow> string \<Rightarrow> unit async" where
  "cpRecovery t connect localPath deviceArg error =
     (let cp = runMpremote t [''connect'', connect, ''fs'', ''cp'', localPath, withPrefix deviceArg];
          errorStr = toLowerCase (errorString error) in
      andThen
        (if isMissingDirError errorStr
         then andThen (createLevels t connect deviceArg) (\<lambda>_.
              succeeds (andThen (cp False) (\<lambda>_. clearFileTreeCache)))
         else resolve False) (\<lambda>done1.
      if done1 then resolve ()
      else andThen
        (if includesStr errorStr ''read-only file system''
         then andThen (ignoreErrors (runMpremote t [''connect'', connect, ''fs'', ''stat'', ''/''] False)) (\<lambda>_.
              andThen (succeeds
                (andThen (runMpremote t [''connect'', connect, ''reset''] False) (\<lambda>_.
                 andThen (\<lambda>v. (Inr (), v\<lparr>events := events v @ [Delay 2000]\<rparr>)) (\<lambda>_.
                 andThen (cp False) (\<lambda>_.
                 clearFileTreeCache))))) (\<lambda>done2.
              if done2 then resolve True
              else andThen (succeeds
                (andThen (runMpremote t [''connect'', connect, ''exec'',
                   ''import os; os.umount('' @ [CHR 0x27] @ ''/'' @ [CHR 0x27]
                     @ ''); os.mount(os.VfsFat(os.sdcard()), '' @ [CHR 0x27] @ ''/'' @ [CHR 0x27] @ '')''] False) (\<lambda>_.
                 andThen (cp False) (\<lambda>_.
                 clearFileTreeCache)))) (\<lambda>done3.
              if done3 then resolve True
              else andThen (ignoreErrors (runMpremote t [''connect'', connect, ''exec'',
                   ''f = open('' @ [CHR 0x27] @ ''test_write.tmp'' @ [CHR 0x27] @ '', ''
                     @ [CHR 0x27] @ ''w'' @ [CHR 0x27] @ ''); f.write('' @ [CHR 0x27] @ ''test''
                     @ [CHR 0x27] @ ''); f.close()''] False)) (\<lambda>_.
              resolve False))))
         else resolve False) (\<lambda>done4.
      if done4 then resolve () else reject error)))"

definition cpToDeviceOn :: "tool \<Rightarrow> string \<Rightarrow> string \<Rightarrow> string \<Rightarrow> unit async" where
  "cpToDeviceOn t connect localPath devicePath =
     (let deviceArg = pathArgOf devicePath;
          cp = runMpremote t [''connect'', connect, ''fs'', ''cp'', localPath, withPrefix deviceArg] in
      tryCatch
        (andThen (ensureParent t connect deviceArg) (\<lambda>_.
         andThen (cp True) (\<lambda>_.
         clearFileTreeCache)))
        (cpRecovery t connect localPath deviceArg))"

definition cpToDevice :: "tool \<Rightarrow> string \<Rightarrow> string \<Rightarrow> unit async" where
  "cpToDevice t localPath devicePath w =
     (let connect = configuredConnect w in
      if noPort connect then reject selectPortMsg w
      else cpToDeviceOn t connect localPath devicePath w)"

text \<open>\<^verbatim>\<open>uploadReplacing(localPath, devicePath)\<close>, in the same two steps.\<close>

definition uploadReplacingOn :: "tool \<Rightarrow> string \<Rightarrow> string \<Rightarrow> string \<Rightarrow> unit async" where
  "uploadReplacingOn t connect localPath devicePath =
     (let deviceArg = pathArgOf devicePath;
          cp = runMpremote t [''connect'', connect, ''fs'', ''cp'', ''-f'', localPath, withPrefix deviceArg] in
      tryCatch
        (andThen (ensureParent t connect deviceArg) (\<lambda>_.
         andThen (cp True) (\<lambda>_.
         clearFileTreeCache)))
        (\<lambda>error.
           let errorStr = toLowerCase (errorString error) in
           andThen
             (if isMissingDirError errorStr
              then andThen (createLevels t connect deviceArg) (\<lambda>_.
                   succeeds (andThen (cp False) (\<lambda>_. clearFileTreeCache)))
              else resolve False) (\<lambda>done1.
           if done1 then resolve () else reject error)))"

definition uploadReplacing :: "tool \<Rightarrow> string \<Rightarrow> string \<Rightarrow> unit async" where
  "uploadReplacing t localPath devicePath w =
     (let connect = configuredConnect w in
      if noPort connect then reject selectPortMsg w
      else uploadReplacingOn t connect localPath devicePath w)"

section \<open>Deleting on the board\<close>

text \<open>
  \<^verbatim>\<open>getFileInfo(p)\<close>: only the \<open>isDir\<close> field of the answer is used by the callers
  modelled here and is what the function returns in the model; \<open>None\<close> is \<^verbatim>\<open>null\<close>.
  The directory bit is bit 14 (\<open>0x4000\<close>) of the mode word; an unparsable mode is \<open>NaN\<close>,
  whose bitwise conjunction is \<open>0\<close>.
\<close>

definition isNotFoundError :: "string \<Rightarrow> bool" where
  "isNotFoundError errorStr =
     (includesStr errorStr ''no such file'' \<or> includesStr errorStr ''file not found''
      \<or> includesStr errorStr ''does not exist'')"

definition statIsDir :: "string \<Rightarrow> bool option" where
  "statIsDir output =
     (let trimmed = trim output;
          parts = (if trimmed = [] then [] # [] else wordsOf trimmed) in
      if length parts \<ge> 4
      then Some (hasBit (parseInt (parts ! 1)) 14)
      else None)"

definition getFileInfo :: "tool \<Rightarrow> string \<Rightarrow> bool option async" where
  "getFileInfo t p w =
     (let connect = configuredConnect w in
      if noPort connect then reject selectPortMsg w
      else tryCatch
             (andThen (runMpremote t [''connect'', connect, ''fs'', ''stat'', pathArgOf p] True)
                (\<lambda>output. resolve (statIsDir output)))
             (\<lambda>error.
                if isNotFoundError (toLowerCase (errorString error)) then resolve None
                else reject error) w)"

text \<open>
  One line of an \<^verbatim>\<open>fs ls\<close> listing as \<^verbatim>\<open>deleteDirectoryRecursive\<close> reads it: \<open>None\<close> when
  the line is skipped (blank, containing \<open>ls\<close>, or fewer than two words), otherwise the path
  of the entry and whether it is taken for a directory.
\<close>

definition lsItem :: "string \<Rightarrow> string \<Rightarrow> (string \<times> bool) option" where
  "lsItem p line =
     (if trim line = [] \<or> includesStr line ''ls'' then None
      else let parts = wordsOf (trim line) in
        if length parts \<ge> 2
        then (let size = orZero (parseInt (hd parts));
                  filename = joinWith '' '' (tl parts);
                  isDir = (size = Num 0 \<and> endsWithSlash filename);
                  itemPath = (if p = ''/'' then ''/'' @ stripTrailingSlash filename
                              else p @ ''/'' @ stripTrailingSlash filename)
              in Some (itemPath, isDir))
        else None)"

text \<open>
  \<^verbatim>\<open>deleteDirectoryRecursive(p, connect)\<close>. The recursion follows what the tool lists, so
  the model carries fuel for the nesting depth: \<open>None\<close> when the fuel runs out.
\<close>

fun deleteDirectoryRecursive ::
    "nat \<Rightarrow> tool \<Rightarrow> string \<Rightarrow> string \<Rightarrow> world \<Rightarrow> ((string + unit) \<times> world) option"
  and deleteItems ::
    "nat \<Rightarrow> tool \<Rightarrow> string \<Rightarrow> string \<Rightarrow> string list \<Rightarrow> world \<Rightarrow> ((string + unit) \<times> world) option"
  where
  "deleteDirectoryRecursive 0 t p connect w = None"
| "deleteDirectoryRecursive (Suc n) t p connect w =
     (case runMpremote t [''connect'', connect, ''fs'', ''ls'', p] True w of
        (Inl error, w1) \<Rightarrow> Some (Inl error, w1)
      | (Inr output, w1) \<Rightarrow>
          (case deleteItems n t p connect (filter (\<lambda>l. trim l \<noteq> []) (splitLines output)) w1 of
             None \<Rightarrow> None
           | Some (Inl error, w2) \<Rightarrow> Some (Inl error, w2)
           | Some (Inr u, w2) \<Rightarrow>
               Some (andThen (runMpremote t [''connect'', connect, ''fs'', ''rmdir'', p] True)
                       (\<lambda>_. resolve ()) w2)))"
| "deleteItems n t p connect [] w = Some (Inr (), w)"
| "deleteItems n t p connect (line # rest) w =
     (case lsItem p line of
        None \<Rightarrow> deleteItems n t p connect rest w
      | Some (itemPath, isDir) \<Rightarrow>
          if isDir
          then (case deleteDirectoryRecursive n t itemPath connect w of
                  None \<Rightarrow> None
                | Some (Inl error, w1) \<Rightarrow> Some (Inl error, w1)
                | Some (Inr u, w1) \<Rightarrow> deleteItems n t p connect rest w1)
          else deleteItems n t p connect rest
                 (snd (ignoreErrors
                        (runMpremote t [''connect'', connect, ''fs'', ''rm'', itemPath] True) w)))"

definition isNotEmptyError :: "string \<Rightarrow> bool" where
  "isNotEmptyError errorMessage =
     (includesStr errorMessage ''oserror: 39'' \<or> includesStr errorMessage ''directory not empty'')"

text \<open>The \<^verbatim>\<open>try\<close> block of \<^verbatim>\<open>deleteAny\<close>: stat, then one remove command, then the cache.\<close>

definition removeByKind :: "tool \<Rightarrow> string \<Rightarrow> string \<Rightarrow> unit async" where
  "removeByKind t connect p =
     andThen (getFileInfo t p) (\<lambda>fileInfo.
       let isDirectory = (case fileInfo of None \<Rightarrow> False | Some d \<Rightarrow> d);
           args = [''connect'', connect, ''fs'', ''rm''] @ (if isDirectory then [''-r''] else [])
                    @ [pathArgOf p] in
       andThen (runMpremote t args True) (\<lambda>_. clearFileTreeCache))"

definition deleteAny ::
    "nat \<Rightarrow> tool \<Rightarrow> string \<Rightarrow> world \<Rightarrow> ((string + unit) \<times> world) option" where
  "deleteAny fuel t p w =
     (let connect = configuredConnect w in
      if noPort connect then Some (reject selectPortMsg w)
      else case removeByKind t connect p w of
        (Inr u, w1) \<Rightarrow> Some (Inr u, w1)
      | (Inl error, w1) \<Rightarrow>
          if isNotEmptyError (toLowerCase (errorString error))
          then (case deleteDirectoryRecursive fuel t p connect w1 of
                  None \<Rightarrow> None
                | Some (Inr u, w2) \<Rightarrow> Some (clearFileTreeCache w2)
                | Some (Inl recursiveError, w2) \<Rightarrow>
                    Some (Inl (''Failed to delete directory '' @ p @ '': '' @ errorString recursiveError), w2))
          else Some (Inl error, w1))"

section \<open>Parsing the tool's tree output\<close>

text \<open>
  The tool draws the tree with box-drawing characters. A string holds the bytes of the
  UTF-8 output; the three markers the parser looks for are byte sequences, and the parser
  advances by the marker it matched.
\<close>

definition tee :: string where
  "tee = [CHR 0xE2, CHR 0x94, CHR 0x9C, CHR 0xE2, CHR 0x94, CHR 0x80, CHR 0xE2, CHR 0x94, CHR 0x80]"

definition elbow :: string where
  "elbow = [CHR 0xE2, CHR 0x94, CHR 0x94, CHR 0xE2, CHR 0x94, CHR 0x80, CHR 0xE2, CHR 0x94, CHR 0x80]"

definition pipe :: string where
  "pipe = [CHR 0xE2, CHR 0x94, CHR 0x82, CHR '' '', CHR '' '', CHR '' '']"

text \<open>
  The loop of \<^verbatim>\<open>parseTreeLine\<close> over the rest of the line: the level counted so far and
  what is left to read.
\<close>

function parseTreeLoop :: "string \<Rightarrow> nat \<Rightarrow> string \<Rightarrow> (nat \<times> string) option" where
  "parseTreeLoop line level remaining =
     (if remaining = [] then None
      else if startsWith remaining tee \<or> startsWith remaining elbow
        then Some (level, trim (drop (length tee) remaining))
      else if startsWith remaining pipe
        then parseTreeLoop line (level + 1) (drop (length pipe) remaining)
      else if startsWith remaining ''    ''
        then parseTreeLoop line (level + 1) (drop 4 remaining)
      else (let stripped = trim line in
            if stripped \<noteq> [] \<and> stripped \<noteq> line
            then Some ((utf16Length line - utf16Length stripped) div 4, stripped)
            else None))"
  by pat_completeness auto
termination
  by (relation "measure (\<lambda>(line, level, remaining). length remaining)")
     (auto simp: startsWith_def pipe_def)

definition parseTreeLine :: "string \<Rightarrow> (nat \<times> string) option" where
  "parseTreeLine line = (if trim line = [] then None else parseTreeLoop line 0 line)"

definition fileExtensions :: "string list" where
  "fileExtensions =
     [''py'', ''txt'', ''log'', ''md'', ''html'', ''css'', ''js'', ''json'',
      ''ico'', ''png'', ''jpg'', ''jpeg'', ''gif'', ''svg'', ''csv'', ''xml'',
      ''yml'', ''yaml'', ''toml'', ''ini'', ''cfg'', ''conf'']"

definition specialFiles :: "string list" where
  "specialFiles = [''main'', ''boot'', ''README'', ''LICENSE'', ''Makefile'']"

text \<open>
  The look-ahead of \<^verbatim>\<open>determineIsDirectory\<close> over the following lines (at most nine):
  \<open>True\<close> when a line with a positive level is met first.
\<close>

fun hasChildAhead :: "string list \<Rightarrow> bool" where
  "hasChildAhead [] = False"
| "hasChildAhead (l # ls) =
     (let nextLine = trim l in
      if nextLine = [] \<or> includesStr nextLine ''tree'' \<or> nextLine = '':'' then False
      else (case parseTreeLine nextLine of
              None \<Rightarrow> hasChildAhead ls
            | Some (level, name) \<Rightarrow> if level > 0 then True else False))"

definition determineIsDirectory :: "string \<Rightarrow> string list \<Rightarrow> nat \<Rightarrow> bool" where
  "determineIsDirectory name allLines currentIndex =
     (if CHR ''.'' \<in> set name
         \<and> toLowerCase (last (splitOn (CHR ''.'') name)) \<in> set fileExtensions
      then False
      else if name \<in> set specialFiles then False
      else if hasChildAhead (take 9 (drop (currentIndex + 1) allLines)) then True
      else if CHR ''.'' \<notin> set name \<and> name \<noteq> ''tree'' \<and> name \<noteq> []
              \<and> \<not> startsWith name ''.''
      then True
      else False)"

text \<open>\<^verbatim>\<open>lines.indexOf(line)\<close> for a line that occurs in \<open>lines\<close>.\<close>

fun indexOf :: "'a list \<Rightarrow> 'a \<Rightarrow> nat" where
  "indexOf [] x = 0"
| "indexOf (y # ys) x = (if y = x then 0 else Suc (indexOf ys x))"

text \<open>The loop of \<^verbatim>\<open>parseTreeLines\<close>: the lines left, the directory stack, the result.\<close>

fun parseTreeFrom :: "string list \<Rightarrow> string list \<Rightarrow> string list \<Rightarrow> treeLine list" where
  "parseTreeFrom lines [] dirStack = []"
| "parseTreeFrom lines (line # rest) dirStack =
     (if trim line = [] \<or> includesStr line ''tree'' \<or> line = '':/'' \<or> line = '':''
      then parseTreeFrom lines rest dirStack
      else (case parseTreeLine line of
              None \<Rightarrow> parseTreeFrom lines rest dirStack
            | Some (level, name) \<Rightarrow>
                (let stack = take level dirStack;
                     path = (if stack = [] then ''/'' @ name else last stack @ ''/'' @ name);
                     isDir = determineIsDirectory name lines (indexOf lines line)
                 in \<lparr>lineFullPath = path, lineName = name, lineIsDir = isDir, depth = level\<rparr>
                    # parseTreeFrom lines rest (if isDir then stack @ [path] else stack))))"

definition parseTreeLines :: "string \<Rightarrow> treeLine list" where
  "parseTreeLines treeOutput =
     (let lines = filter (\<lambda>l. trim l \<noteq> []) (splitLines treeOutput)
      in parseTreeFrom lines lines [])"

text \<open>
  \<^verbatim>\<open>buildTreeFromParsedLines\<close>: the store of nodes and the map from directory path to node
  (an association list, the latest entry first).
\<close>

text \<open>The root node \<^verbatim>\<open>{name: "", isDir: true, children: [], fullPath: "/"}\<close>.\<close>

definition rootNode :: tnode where
  "rootNode = \<lparr>nodeName = [], nodeIsDir = True, children = [], fullPath = ''/''\<rparr>"

definition parentPathOf :: "string \<Rightarrow> string" where
  "parentPathOf path =
     (let pathParts = segments path in
      if length pathParts > 1 then ''/'' @ joinWith ''/'' (butlast pathParts) else ''/'')"

fun buildTreeFrom :: "treeLine list \<Rightarrow> tnode list \<Rightarrow> (string \<times> nat) list \<Rightarrow> tnode list" where
  "buildTreeFrom [] store nodeMap = store"
| "buildTreeFrom (item # items) store nodeMap =
     (case map_of nodeMap (parentPathOf (lineFullPath item)) of
        None \<Rightarrow> buildTreeFrom items store nodeMap
      | Some parent \<Rightarrow>
          (let new = length store;
               newNode = \<lparr>nodeName = lineName item, nodeIsDir = lineIsDir item, children = [],
                          fullPath = lineFullPath item\<rparr>;
               store' = (store[parent := (store ! parent)\<lparr>children := children (store ! parent) @ [new]\<rparr>])
                          @ [newNode]
           in buildTreeFrom items store'
                (if lineIsDir item then (lineFullPath item, new) # nodeMap else nodeMap)))"

definition buildTreeFromParsedLines :: "treeLine list \<Rightarrow> tnode list" where
  "buildTreeFromParsedLines parsedLines = buildTreeFrom parsedLines [rootNode] [(''/'', 0)]"

text \<open>\<^verbatim>\<open>getEntriesFromCache(targetPath)\<close>; \<open>None\<close> is \<^verbatim>\<open>null\<close>.\<close>

definition entriesOf :: "tnode list \<Rightarrow> nat \<Rightarrow> (string \<times> bool) list" where
  "entriesOf store n = map (\<lambda>c. (nodeName (store ! c), nodeIsDir (store ! c))) (children (store ! n))"

fun findNode :: "tnode list \<Rightarrow> nat \<Rightarrow> string list \<Rightarrow> nat option" where
  "findNode store current [] = Some current"
| "findNode store current (part # parts) =
     (case filter (\<lambda>c. nodeName (store ! c) = part) (children (store ! current)) of
        [] \<Rightarrow> None
      | found # _ \<Rightarrow> findNode store found parts)"

definition getEntriesFromCache :: "tnode list option \<Rightarrow> string \<Rightarrow> (string \<times> bool) list option" where
  "getEntriesFromCache c targetPath =
     (case c of
        None \<Rightarrow> None
      | Some store \<Rightarrow>
          if targetPath = ''/'' then Some (entriesOf store 0)
          else map_option (entriesOf store) (findNode store 0 (segments targetPath)))"

definition parseTreeForPath :: "string \<Rightarrow> string \<Rightarrow> (string \<times> bool) list" where
  "parseTreeForPath treeOutput targetPath =
     (let targetPathParts = segments targetPath in
      map (\<lambda>item. (lineName item, lineIsDir item))
        (filter (\<lambda>item.
            if targetPath = ''/'' then depth item = 0
            else (let itemPathParts = segments (lineFullPath item) in
                  length itemPathParts = length targetPathParts + 1
                  \<and> take (length targetPathParts) itemPathParts = targetPathParts))
          (parseTreeLines treeOutput)))"

text \<open>The parse of an \<^verbatim>\<open>fs ls\<close> listing in the last fallback of \<^verbatim>\<open>lsTyped\<close>.\<close>

definition lsFallbackEntry :: "string \<Rightarrow> (string \<times> bool) option" where
  "lsFallbackEntry line =
     (let trimmed = trim line in
      if trimmed = [] \<or> includesStr trimmed ''ls'' then None
      else let parts = wordsOf trimmed in
        if length parts \<ge> 2
        then (let size = orZero (parseInt (hd parts));
                  filename = joinWith '' '' (tl parts)
              in if filename \<noteq> []
                 then Some (stripTrailingSlash filename, size = Num 0 \<and> endsWithSlash filename)
                 else None)
        else None)"

definition parseLsFallback :: "string \<Rightarrow> (string \<times> bool) list" where
  "parseLsFallback lsOutput =
     List.map_filter lsFallbackEntry (filter (\<lambda>l. trim l \<noteq> []) (splitLines lsOutput))"

section \<open>Listing the board\<close>

text \<open>\<^verbatim>\<open>isCacheValid()\<close>, with \<open>TREE_CACHE_DURATION = 30000\<close>.\<close>

definition isCacheValid :: "clock \<Rightarrow> world \<Rightarrow> bool" where
  "isCacheValid clk w = (cache w \<noteq> None \<and> clk (events w) - lastTreeUpdate w < 30000)"

text \<open>
  \<^verbatim>\<open>populateFileTreeCache()\<close>. The parsed lines are also saved to \<open>tree-paths.json\<close> when a
  workspace is open; a failure to save is only logged.
\<close>

definition populateFileTreeCache :: "tool \<Rightarrow> clock \<Rightarrow> unit async" where
  "populateFileTreeCache t clk w =
     (let connect = configuredConnect w in
      andThen (runMpremote t [''connect'', connect, ''fs'', ''tree''] True)
        (\<lambda>output v.
           let parsedLines = parseTreeLines output;
               v1 = (if stateDirWritable v
                     then v\<lparr>treePathsFile := Some (clk (events v), parsedLines)\<rparr> else v)
           in (Inr (), v1\<lparr>cache := Some (buildTreeFromParsedLines parsedLines),
                             lastTreeUpdate := clk (events v1)\<rparr>)) w)"

text \<open>
  The tail of \<^verbatim>\<open>lsTyped\<close> when the cache has no entries for the path: parse a fresh tree
  listing, and when that has no entries either, try \<^verbatim>\<open>fs ls\<close>; a failure of this last
  resort is logged and the empty result of the tree parse is returned.
\<close>

definition lsDirect :: "tool \<Rightarrow> string \<Rightarrow> string \<Rightarrow> (string \<times> bool) list async" where
  "lsDirect t connect p =
     andThen (runMpremote t [''connect'', connect, ''fs'', ''tree''] True)
       (\<lambda>output.
          let result = parseTreeForPath output p in
          if result = []
          then tryCatch
                 (andThen
                    (runMpremote t
                       ([''connect'', connect, ''fs'', ''ls''] @ (if p \<noteq> [] \<and> p \<noteq> ''/'' then [p] else []))
                       True)
                    (\<lambda>lsOutput. resolve (parseLsFallback lsOutput)))
                 (\<lambda>fallbackError. resolve result)
          else resolve result)"

definition lsTyped :: "tool \<Rightarrow> clock \<Rightarrow> string \<Rightarrow> (string \<times> bool) list async" where
  "lsTyped t clk p w =
     (let connect = configuredConnect w in
      andThen (if \<not> isCacheValid clk w then populateFileTreeCache t clk else resolve ())
        (\<lambda>_ v. case getEntriesFromCache (cache v) p of
                 None \<Rightarrow> lsDirect t connect p v
               | Some cachedResult \<Rightarrow>
                   if cachedResult \<noteq> [] then resolve cachedResult v
                   else lsDirect t connect p v) w)"

text \<open>
  \<^verbatim>\<open>listTreeStats(root)\<close>: path, directory flag and size of each entry (the time stamp
  field of the entries is left out). A \<open>tree-paths.json\<close> younger than 30 seconds is used
  instead of asking the board.
\<close>

definition treeStatEntry :: "string \<Rightarrow> (string \<times> bool \<times> number) option" where
  "treeStatEntry line =
     (let trimmed = trim line in
      if trimmed = [] \<or> includesStr trimmed ''tree'' then None
      else let parts = wordsOf trimmed in
        if length parts \<ge> 2
        then (let size = orZero (parseInt (hd parts));
                  filename = joinWith '' '' (tl parts)
              in Some (stripTrailingSlash filename, endsWithSlash filename, size))
        else None)"

definition parseTreeStats :: "string \<Rightarrow> (string \<times> bool \<times> number) list" where
  "parseTreeStats output =
     List.map_filter treeStatEntry (filter (\<lambda>l. trim l \<noteq> []) (splitLines output))"

definition freshTreePaths :: "clock \<Rightarrow> world \<Rightarrow> treeLine list option" where
  "freshTreePaths clk w =
     (case treePathsFile w of
        None \<Rightarrow> None
      | Some (mtime, items) \<Rightarrow> if clk (events w) - mtime < 30000 then Some items else None)"

definition listTreeStats :: "tool \<Rightarrow> clock \<Rightarrow> string \<Rightarrow> (string \<times> bool \<times> number) list async" where
  "listTreeStats t clk root w =
     (let connect = configuredConnect w in
      if noPort connect then reject selectPortMsg w
      else tryCatch
             (case freshTreePaths clk w of
                Some items \<Rightarrow> resolve (map (\<lambda>item. (lineFullPath item, lineIsDir item, Num 0)) items)
              | None \<Rightarrow>
                  andThen
                    (runMpremote t
                       ([''connect'', connect, ''fs'', ''tree'']
                          @ (if root \<noteq> [] \<and> root \<noteq> ''/'' then [root] else []))
                       True)
                    (\<lambda>output. resolve (parseTreeStats output)))
             (\<lambda>error. reject error) w)"

text \<open>\<^verbatim>\<open>cpFromDevice(devicePath, localPath)\<close>\<close>

definition cpFromDevice :: "tool \<Rightarrow> string \<Rightarrow> string \<Rightarrow> unit async" where
  "cpFromDevice t devicePath localPath w =
     (let connect = configuredConnect w;
          deviceArg = (if devicePath \<noteq> [] \<and> devicePath \<noteq> ''/'' then stripLeadingSlash devicePath else ''/'') in
      if noPort connect then reject selectPortMsg w
      else tryCatch
             (andThen (runMpremote t [''connect'', connect, ''fs'', ''cp'', withPrefix deviceArg, localPath] True)
                (\<lambda>_. resolve ()))
             (\<lambda>error. reject
                (''Failed to copy from device: '' @ errorString error @ [CHR 0x0A]
                 @ ''Command: mpremote connect '' @ connect @ '' fs cp '' @ [CHR 0x22] @ deviceArg @ [CHR 0x22]
                 @ '' '' @ [CHR 0x22] @ localPath @ [CHR 0x22] @ [CHR 0x0A]
                 @ ''Original device path: '' @ devicePath @ [CHR 0x0A]
                 @ ''Normalized device path: '' @ deviceArg @ [CHR 0x0A]
                 @ ''Local path: '' @ localPath)) w)"

section \<open>Sample sessions and tools\<close>

text \<open>A session with a serial port selected and a populated tree cache.\<close>

definition portWorld :: world where
  "portWorld = \<lparr>connectCfg = ''/dev/ttyUSB0'', toolPath = Some ''mpremote'',
                 cache = Some [rootNode], lastTreeUpdate = 1000, treePathsFile = None,
                 stateDirWritable = True, events = []\<rparr>"

text \<open>The same session with the connection setting left at its default \<open>auto\<close>.\<close>

definition autoWorld :: world where
  "autoWorld = portWorld\<lparr>connectCfg := ''auto''\<rparr>"

text \<open>A tool whose every run succeeds with empty output.\<close>

definition toolOk :: tool where
  "toolOk h args = ExecOk []"

text \<open>A tool whose every run fails because the transport is gone.\<close>

definition toolDown :: tool where
  "toolDown h args = ExecErr ''could not open port: Device not configured'' ''Command failed''"

section \<open>Traces of tool runs\<close>

text \<open>
  \<open>emits Q m\<close>: from every session state, \<open>m\<close> only appends to the history, every event it
  appends satisfies \<open>Q\<close>, and it leaves the configuration alone.
\<close>

definition emits :: "(event \<Rightarrow> bool) \<Rightarrow> 'a async \<Rightarrow> bool" where
  "emits Q m =
     (\<forall>w. \<exists>new. events (snd (m w)) = events w @ new \<and> (\<forall>e \<in> set new. Q e)
            \<and> connectCfg (snd (m w)) = connectCfg w \<and> toolPath (snd (m w)) = toolPath w)"

text \<open>A run of the tool's copy command: \<^verbatim>\<open>connect <port> fs cp ...\<close>\<close>

fun isCopyRun :: "event \<Rightarrow> bool" where
  "isCopyRun (Exec args) = (length args > 3 \<and> args ! 2 = ''fs'' \<and> args ! 3 = ''cp'')"
| "isCopyRun (Delay n) = False"

text \<open>
  What the claim about overwriting is measured against: an event is either no copy run at
  all, or the copy run in its plain form, respectively in its force form.
\<close>

definition plainCopyOnly :: "string \<Rightarrow> string \<Rightarrow> string \<Rightarrow> event \<Rightarrow> bool" where
  "plainCopyOnly c l d e = (\<not> isCopyRun e \<or> e = Exec [''connect'', c, ''fs'', ''cp'', l, d])"

definition forcedCopyOnly :: "string \<Rightarrow> string \<Rightarrow> string \<Rightarrow> event \<Rightarrow> bool" where
  "forcedCopyOnly c l d e = (\<not> isCopyRun e \<or> e = Exec [''connect'', c, ''fs'', ''cp'', ''-f'', l, d])"

text \<open>
  A board on which \<open>/d\<close> is a directory holding the files \<open>models.py\<close> and \<open>main.py\<close>, and
  whose native recursive remove fails on non-empty directories: the stat run reports the
  directory bit, \<^verbatim>\<open>fs rm -r /d\<close> and \<^verbatim>\<open>fs rmdir /d\<close> fail with "Directory not empty",
  \<^verbatim>\<open>fs ls /d\<close> prints the header line and one line per file, and removing a file succeeds.
\<close>

definition toolModelsDir :: tool where
  "toolModelsDir h args =
     (if args = [''connect'', ''/dev/ttyUSB0'', ''fs'', ''stat'', ''/d'']
        then ExecOk ''/d 16384 0 0''
      else if args = [''connect'', ''/dev/ttyUSB0'', ''fs'', ''rm'', ''-r'', ''/d'']
        then ExecErr ''mpremote: rm -r: cannot remove :/d Directory not empty'' ''Command failed''
      else if args = [''connect'', ''/dev/ttyUSB0'', ''fs'', ''ls'', ''/d'']
        then ExecOk (''ls :/d'' @ [CHR 0x0A] @ ''          10 models.py'' @ [CHR 0x0A]
                       @ ''          12 main.py'' @ [CHR 0x0A])
      else if args = [''connect'', ''/dev/ttyUSB0'', ''fs'', ''rmdir'', ''/d'']
        then ExecErr ''mpremote: rmdir: /d: Directory not empty'' ''Command failed''
      else ExecOk [])"

text \<open>A clock that stands at \<open>n\<close> milliseconds.\<close>

definition clockAt :: "int \<Rightarrow> clock" where
  "clockAt n h = n"

text \<open>
  A board without files whose transport goes away after the tree has been read: the tree
  listing prints only its header line, every other command fails with a transient
  connection error.
\<close>

definition toolTreeOnly :: tool where
  "toolTreeOnly h args =
     (if drop 2 args = [''fs'', ''tree''] then ExecOk (''tree :/'' @ [CHR 0x0A])
      else ExecErr ''could not open port: Device not configured'' ''Command failed'')"

text \<open>
  A tool that refuses to copy onto an existing file: every copy run fails with a "File
  exists" message, every other run succeeds.
\<close>

definition toolRefusesExisting :: tool where
  "toolRefusesExisting h args =
     (if isCopyRun (Exec args)
      then ExecErr ''mpremote: cp: OSError: [Errno 17] EEXIST: File exists'' ''Command failed''
      else ExecOk [])"

section \<open>The trace of one \<^verbatim>\<open>runMpremote\<close> call\<close>

text \<open>
  The trace of a call that made \<open>k\<close> retries, the attempt counter standing at \<open>a\<close> before
  the first run: each failed run is followed by a delay of \<open>500\<close> times its attempt number.
\<close>

fun retryTrace :: "string list \<Rightarrow> nat \<Rightarrow> nat \<Rightarrow> event list" where
  "retryTrace args a 0 = [Exec args]"
| "retryTrace args a (Suc k) = Exec args # Delay (500 * (a + 1)) # retryTrace args (a + 1) k"

text \<open>A run that failed with one of the transient connection messages.\<close>

fun failedTransient :: "exec_result \<Rightarrow> bool" where
  "failedTransient (ExecOk out) = False"
| "failedTransient (ExecErr err msg) = isTransient (toLowerCase (if err \<noteq> [] then err else msg))"

fun runFailed :: "exec_result \<Rightarrow> bool" where
  "runFailed (ExecOk out) = False"
| "runFailed (ExecErr err msg) = True"

text \<open>
  The session after the first step of \<^verbatim>\<open>lsTyped\<close>: unchanged when the cache is valid,
  otherwise after \<^verbatim>\<open>populateFileTreeCache\<close>.
\<close>

definition afterCacheStep :: "tool \<Rightarrow> clock \<Rightarrow> world \<Rightarrow> world" where
  "afterCacheStep t clk w = (if isCacheValid clk w then w else snd (populateFileTreeCache t clk w))"


section \<open>The difference check (\<^verbatim>\<open>BoardOperations.checkDiffs\<close>)\<close>

text \<open>
  A JavaScript \<^verbatim>\<open>Map\<close> keeps its keys in insertion order; \<^verbatim>\<open>set\<close> on a present key replaces
  the value in place. \<^verbatim>\<open>Set.add\<close> appends unless the element is present.
\<close>

fun mapSet :: "('k \<times> 'v) list \<Rightarrow> 'k \<Rightarrow> 'v \<Rightarrow> ('k \<times> 'v) list" where
  "mapSet [] k v = [(k, v)]"
| "mapSet ((k', v') # m) k v = (if k' = k then (k, v) # m else (k', v') # mapSet m k v)"

definition setAdd :: "'a list \<Rightarrow> 'a \<Rightarrow> 'a list" where
  "setAdd s x = (if x \<in> set s then s else s @ [x])"

text \<open>
  The ignore matcher comes from the sync module, which is not among the sources: it is a
  parameter, a predicate on a workspace-relative path and a directory flag.
\<close>

type_synonym matcher = "string \<Rightarrow> bool \<Rightarrow> bool"

record diffResult =
  diffSet :: "string list"
  localOnlySet :: "string list"
  localOnlyDirectories :: "string list"
  boardOnlySet :: "string list"

text \<open>
  The board files that pass the ignore rules, keyed by relative path, each with its board path
  and size (\<^verbatim>\<open>filteredBoardFiles\<close>, then \<^verbatim>\<open>boardFileByRelPath\<close>).
\<close>

definition boardFileByRelPath ::
    "matcher \<Rightarrow> string \<Rightarrow> (string \<times> int) list \<Rightarrow> (string \<times> (string \<times> int)) list" where
  "boardFileByRelPath ignored rootPath boardFiles =
     foldl (\<lambda>m (boardPath, sz). mapSet m (relFromDevice boardPath rootPath) (boardPath, sz)) []
       (filter (\<lambda>(boardPath, sz). \<not> ignored (relFromDevice boardPath rootPath) False) boardFiles)"

text \<open>
  \<^verbatim>\<open>localFileSizes.get(localRel) || -1\<close>, where the map holds the size from \<^verbatim>\<open>fs.stat\<close> or
  \<open>-1\<close> when the file cannot be read: \<open>localStat\<close> gives the size, \<open>None\<close> when \<^verbatim>\<open>fs.stat\<close>
  fails. The operator \<^verbatim>\<open>||\<close> replaces every falsy value, also the size \<open>0\<close>.
\<close>

definition localSizeOf :: "(string \<Rightarrow> int option) \<Rightarrow> string \<Rightarrow> int" where
  "localSizeOf localStat localRel =
     (let stored = (case localStat localRel of Some sz \<Rightarrow> sz | None \<Rightarrow> - 1)
      in if stored = 0 then - 1 else stored)"

text \<open>
  The comparison of \<^verbatim>\<open>checkDiffs\<close>, from the local file list, the local sizes, the local
  directories, and the board's files with sizes and directories, to the four sets.
\<close>

definition compareFiles ::
    "string \<Rightarrow> (string \<times> (string \<times> int)) list \<Rightarrow> (string \<Rightarrow> int option) \<Rightarrow> string list
      \<Rightarrow> string list \<times> string list" where
  "compareFiles rootPath byRel localStat localFiles =
     foldl (\<lambda>(diffs, localOnly) localRel.
              case map_of byRel localRel of
                Some (boardPath, sz) \<Rightarrow>
                  if localSizeOf localStat localRel \<noteq> sz then (setAdd diffs boardPath, localOnly)
                  else (diffs, localOnly)
              | None \<Rightarrow> (diffs, setAdd localOnly (toDevicePath localRel rootPath)))
       ([], []) localFiles"

definition checkDiffs ::
    "matcher \<Rightarrow> string \<Rightarrow> string list \<Rightarrow> (string \<Rightarrow> int option) \<Rightarrow> string list
      \<Rightarrow> (string \<times> int) list \<Rightarrow> string list \<Rightarrow> diffResult" where
  "checkDiffs ignored rootPath localFiles localStat localDirectories boardFiles boardDirectories =
     (let byRel = boardFileByRelPath ignored rootPath boardFiles;
          (diffs, localOnly) = compareFiles rootPath byRel localStat localFiles;
          boardOnly = foldl (\<lambda>s (relPath, (boardPath, sz)).
                               if relPath \<notin> set localFiles then setAdd s boardPath else s)
                        [] byRel;
          localOnlyDirs = foldl (\<lambda>s localDir.
                               let devicePath = toDevicePath localDir rootPath in
                               if devicePath \<notin> set boardDirectories then setAdd s devicePath else s)
                            [] localDirectories
      in \<lparr>diffSet = diffs, localOnlySet = localOnly, localOnlyDirectories = localOnlyDirs,
          boardOnlySet = boardOnly\<rparr>)"

text \<open>A matcher that ignores nothing, and local sizes given by a table.\<close>

definition ignoreNothing :: matcher where
  "ignoreNothing rel isDir = False"

definition sizesFrom :: "(string \<times> int) list \<Rightarrow> string \<Rightarrow> int option" where
  "sizesFrom table localRel = map_of table localRel"

section \<open>POSIX paths (\<^verbatim>\<open>path.posix\<close> of the Node.js library)\<close>

text \<open>
  \<^verbatim>\<open>path.posix.join\<close>, \<^verbatim>\<open>normalize\<close> and \<^verbatim>\<open>dirname\<close> belong to the Node.js runtime, not
  to the repository; they are written here from the library's behaviour. Normalising
  drops empty and \<open>.\<close> segments, lets \<open>..\<close> remove the segment before it (keeping \<open>..\<close> only
  at the front of a relative path), and keeps a trailing slash.
\<close>

fun normalizeSegs :: "bool \<Rightarrow> string list \<Rightarrow> string list \<Rightarrow> string list" where
  "normalizeSegs allowAboveRoot [] res = res"
| "normalizeSegs allowAboveRoot (seg # segs) res =
     (if seg = [] \<or> seg = ''.'' then normalizeSegs allowAboveRoot segs res
      else if seg = ''..''
        then (if res \<noteq> [] \<and> last res \<noteq> ''..'' then normalizeSegs allowAboveRoot segs (butlast res)
              else if allowAboveRoot then normalizeSegs allowAboveRoot segs (res @ [''..''])
              else normalizeSegs allowAboveRoot segs res)
      else normalizeSegs allowAboveRoot segs (res @ [seg]))"

definition posixNormalize :: "string \<Rightarrow> string" where
  "posixNormalize path =
     (if path = [] then ''.''
      else let isAbsolute = (hd path = slash);
               trailingSeparator = (last path = slash);
               body = joinWith ''/'' (normalizeSegs (\<not> isAbsolute) (splitOn slash path) [])
           in if body = [] then (if isAbsolute then ''/'' else if trailingSeparator then ''./'' else ''.'')
              else (if isAbsolute then ''/'' else []) @ body @ (if trailingSeparator then ''/'' else []))"

definition posixJoin :: "string \<Rightarrow> string \<Rightarrow> string" where
  "posixJoin a b =
     (let parts = filter (\<lambda>p. p \<noteq> []) [a, b] in
      if parts = [] then ''.'' else posixNormalize (joinWith ''/'' parts))"

text \<open>
  \<^verbatim>\<open>dirname\<close> scans from the end, never looking at the first character: trailing slashes
  are skipped, then the last component, and the path is cut before the slash in front of
  it. A path without such a slash has the directory \<open>/\<close> if it starts with a slash and \<open>.\<close>
  otherwise.
\<close>

definition posixDirname :: "string \<Rightarrow> string" where
  "posixDirname path =
     (if path = [] then ''.''
      else let hasRoot = (hd path = slash);
               r1 = dropWhile (\<lambda>c. c = slash) (rev (tl path));
               r2 = dropWhile (\<lambda>c. c \<noteq> slash) r1
           in if r2 = [] then (if hasRoot then ''/'' else ''.'')
              else if hasRoot \<and> tl r2 = [] then ''//''
              else hd path # rev (tl r2))"

section \<open>The directory plan of the baseline upload (\<^verbatim>\<open>BoardOperations.syncBaseline\<close>)\<close>

text \<open>
  The inner loop \<^verbatim>\<open>while (currentDir !== rootPath && currentDir !== '/')\<close>. It climbs by
  \<^verbatim>\<open>dirname\<close> and does not end when the climb reaches \<open>.\<close> instead of the root, so the model
  carries fuel: \<open>None\<close> when the fuel runs out.
\<close>

fun addParents :: "nat \<Rightarrow> string \<Rightarrow> string \<Rightarrow> string list \<Rightarrow> string list option" where
  "addParents 0 rootPath currentDir allDirectories =
     (if currentDir \<noteq> rootPath \<and> currentDir \<noteq> ''/'' then None else Some allDirectories)"
| "addParents (Suc n) rootPath currentDir allDirectories =
     (if currentDir \<noteq> rootPath \<and> currentDir \<noteq> ''/''
      then addParents n rootPath (posixDirname currentDir) (setAdd allDirectories currentDir)
      else Some allDirectories)"

fun collectDirectories :: "nat \<Rightarrow> string \<Rightarrow> string list \<Rightarrow> string list \<Rightarrow> string list option" where
  "collectDirectories fuel rootPath [] allDirectories = Some allDirectories"
| "collectDirectories fuel rootPath (relativePath # files) allDirectories =
     (let devicePath = posixJoin rootPath relativePath;
          deviceDir = posixDirname devicePath in
      if deviceDir \<noteq> ''.'' \<and> deviceDir \<noteq> rootPath
      then (case addParents fuel rootPath deviceDir allDirectories of
              None \<Rightarrow> None
            | Some dirs \<Rightarrow> collectDirectories fuel rootPath files dirs)
      else collectDirectories fuel rootPath files allDirectories)"

text \<open>\<^verbatim>\<open>a.split('/').filter(p => p).length\<close>\<close>

definition depthOf :: "string \<Rightarrow> nat" where
  "depthOf a = length (segments a)"

text \<open>
  \<^verbatim>\<open>Array.from(allDirectories).sort((a, b) => depthA - depthB)\<close>: the sort is stable, as
  insertion by key is.
\<close>

definition sortedDirectories :: "nat \<Rightarrow> string \<Rightarrow> string list \<Rightarrow> string list option" where
  "sortedDirectories fuel rootPath files =
     map_option (sort_key depthOf) (collectDirectories fuel rootPath files [])"

text \<open>The first \<open>n\<close> directories above a path: its parent, the parent's parent, and so on.\<close>

fun ancestorsOf :: "nat \<Rightarrow> string \<Rightarrow> string list" where
  "ancestorsOf 0 d = []"
| "ancestorsOf (Suc n) d = posixDirname d # ancestorsOf n (posixDirname d)"

text \<open>
  The invariant of the collected directories: none is the root, \<open>/\<close> or \<open>.\<close>, and the
  parent of each is the root, \<open>/\<close>, or collected as well.
\<close>

definition planClosed :: "string \<Rightarrow> string list \<Rightarrow> bool" where
  "planClosed rootPath ds =
     ((\<forall>d \<in> set ds. d \<noteq> rootPath \<and> d \<noteq> ''/'' \<and> d \<noteq> ''.'')
      \<and> (\<forall>d \<in> set ds. posixDirname d = rootPath \<or> posixDirname d = ''/'' \<or> posixDirname d \<in> set ds))"

text \<open>
  The climb from a directory passes its \<open>k\<close>-th parent: neither the directory nor any of
  its first \<open>k\<close> parents is the root as it is configured or \<open>/\<close>.
\<close>

definition climbs :: "string \<Rightarrow> string \<Rightarrow> nat \<Rightarrow> bool" where
  "climbs rootPath deviceDir k =
     (\<forall>j \<in> set [0..<Suc k]. (posixDirname ^^ j) deviceDir \<noteq> rootPath
                              \<and> (posixDirname ^^ j) deviceDir \<noteq> ''/'')"


section \<open>The baseline upload (\<^verbatim>\<open>BoardOperations.syncBaseline\<close>): directories, files, report\<close>

text \<open>
  The function is modelled from the list of the manifest's files on: the manifest is
  built, and saved again afterwards, by the sync module, which is not among the sources;
  a workspace is open and initialised for synchronisation. The calls into the tree view
  and the progress display are left out.

  Creating one planned directory: up to three attempts, 100 milliseconds apart. The result
  is whether the directory was created; the caller only logs it.
\<close>

fun createDirectory :: "tool \<Rightarrow> string \<Rightarrow> nat \<Rightarrow> bool async" where
  "createDirectory t deviceDir 0 = resolve False"
| "createDirectory t deviceDir (Suc attemptsLeft) =
     tryCatch (andThen (mkdir t deviceDir) (\<lambda>_. resolve True))
       (\<lambda>error. if attemptsLeft = 0 then resolve False
                else andThen (\<lambda>v. (Inr (), v\<lparr>events := events v @ [Delay 100]\<rparr>))
                       (\<lambda>_. createDirectory t deviceDir attemptsLeft))"

text \<open>
  The two verification loops: the directories for which \<^verbatim>\<open>fileExists\<close> does not answer
  \<open>true\<close>; a rejected call counts as a missing directory.
\<close>

fun missingDirectories :: "tool \<Rightarrow> string list \<Rightarrow> string list async" where
  "missingDirectories t [] = resolve []"
| "missingDirectories t (deviceDir # rest) =
     andThen (tryCatch (fileExists t deviceDir) (\<lambda>error. resolve False)) (\<lambda>found.
     andThen (missingDirectories t rest) (\<lambda>missing.
     resolve (if found then missing else deviceDir # missing)))"

text \<open>
  The directory phase: create the planned directories in order, verify them, create the
  missing ones once more, verify those again, and throw when some are still missing.
\<close>

definition prepareDirectories :: "tool \<Rightarrow> string list \<Rightarrow> unit async" where
  "prepareDirectories t sortedDirs =
     andThen (forEach sortedDirs
                (\<lambda>deviceDir. andThen (createDirectory t deviceDir 3) (\<lambda>created. resolve ()))) (\<lambda>_.
     andThen (missingDirectories t sortedDirs) (\<lambda>verificationFailures.
     if verificationFailures \<noteq> []
     then andThen (forEach verificationFailures (\<lambda>missingDir. ignoreErrors (mkdir t missingDir))) (\<lambda>_.
          andThen (missingDirectories t verificationFailures) (\<lambda>stillMissing.
          if stillMissing \<noteq> []
          then reject (''Missing directories after retry: '' @ joinWith '', '' stillMissing)
          else resolve ()))
     else resolve ()))"

text \<open>
  After the directories, \<^verbatim>\<open>syncBaseline\<close> checks which manifest files still exist locally,
  warns about the missing ones and uploads the others one by one. The local file system
  is given by two predicates on the local path: whether \<^verbatim>\<open>fs.access\<close> succeeds in the first
  pass, and whether it succeeds when the file's turn in the upload loop has come.
  \<open>localPath\<close> stands for \<^verbatim>\<open>path.join(ws.uri.fsPath, relativePath)\<close>.
\<close>

record uploadReport =
  validFiles :: "string list"
  missingFiles :: "string list"
  warned :: bool
  uploaded :: nat
  failed :: nat

text \<open>
  The loop \<^verbatim>\<open>for (const relativePath of validFiles)\<close> with its counters: a file that is gone
  counts as failed, a rejected \<^verbatim>\<open>cpToDevice\<close> counts as failed, and the loop goes on.
\<close>

fun uploadEach ::
    "tool \<Rightarrow> (string \<Rightarrow> string) \<Rightarrow> (string \<Rightarrow> bool) \<Rightarrow> string \<Rightarrow> string list \<Rightarrow> nat \<times> nat
      \<Rightarrow> world \<Rightarrow> (nat \<times> nat) \<times> world" where
  "uploadEach t localPath accessible rootPath [] counts w = (counts, w)"
| "uploadEach t localPath accessible rootPath (relativePath # rest) counts w =
     (if \<not> accessible (localPath relativePath)
      then uploadEach t localPath accessible rootPath rest (fst counts, snd counts + 1) w
      else case cpToDevice t (localPath relativePath) (posixJoin rootPath relativePath) w of
             (Inr u, w1) \<Rightarrow>
               uploadEach t localPath accessible rootPath rest (fst counts + 1, snd counts) w1
           | (Inl individualError, w1) \<Rightarrow>
               uploadEach t localPath accessible rootPath rest (fst counts, snd counts + 1) w1)"

definition uploadFiles ::
    "tool \<Rightarrow> (string \<Rightarrow> string) \<Rightarrow> (string \<Rightarrow> bool) \<Rightarrow> (string \<Rightarrow> bool) \<Rightarrow> string
      \<Rightarrow> string list \<Rightarrow> world \<Rightarrow> uploadReport \<times> world" where
  "uploadFiles t localPath accessibleFirst accessibleThen rootPath files w =
     (let valid = filter (\<lambda>relativePath. accessibleFirst (localPath relativePath)) files;
          missing = filter (\<lambda>relativePath. \<not> accessibleFirst (localPath relativePath)) files;
          r = uploadEach t localPath accessibleThen rootPath valid (0, 0) w
      in (\<lparr>validFiles = valid, missingFiles = missing, warned = (missing \<noteq> []),
           uploaded = fst (fst r), failed = snd (fst r)\<rparr>, snd r))"

text \<open>
  The body of the transfer (the function passed to \<^verbatim>\<open>withAutoSuspend\<close>, which only calls
  it): the directory plan, the directory phase, the uploads. \<open>None\<close> when the planning loop
  runs out of fuel; a rejection is the error thrown by the directory phase.
\<close>

definition transferFiles ::
    "nat \<Rightarrow> tool \<Rightarrow> (string \<Rightarrow> string) \<Rightarrow> (string \<Rightarrow> bool) \<Rightarrow> (string \<Rightarrow> bool) \<Rightarrow> string
      \<Rightarrow> string list \<Rightarrow> world \<Rightarrow> ((string + uploadReport) \<times> world) option" where
  "transferFiles fuel t localPath accessibleFirst accessibleThen rootPath files w =
     (case sortedDirectories fuel rootPath files of
        None \<Rightarrow> None
      | Some sortedDirs \<Rightarrow>
          Some (case prepareDirectories t sortedDirs w of
                  (Inl error, w1) \<Rightarrow> (Inl error, w1)
                | (Inr u, w1) \<Rightarrow>
                    (case uploadFiles t localPath accessibleFirst accessibleThen rootPath files w1 of
                       (report, w2) \<Rightarrow> (Inr report, w2))))"

text \<open>
  \<^verbatim>\<open>syncBaseline\<close> around it. With an empty manifest nothing is transferred. An error
  thrown by the transfer is caught and shown as the message \<open>Upload failed: ...\<close>;
  otherwise the completion message is shown, whatever the counters of the report say. The
  function itself returns in both cases.
\<close>

datatype outcome = UploadFailed string | Completed "uploadReport option"

definition syncBaseline ::
    "nat \<Rightarrow> tool \<Rightarrow> (string \<Rightarrow> string) \<Rightarrow> (string \<Rightarrow> bool) \<Rightarrow> (string \<Rightarrow> bool) \<Rightarrow> string
      \<Rightarrow> string list \<Rightarrow> world \<Rightarrow> (outcome \<times> world) option" where
  "syncBaseline fuel t localPath accessibleFirst accessibleThen rootPath files w =
     (if files = [] then Some (Completed None, w)
      else case transferFiles fuel t localPath accessibleFirst accessibleThen rootPath files w of
             None \<Rightarrow> None
           | Some (Inl error, w1) \<Rightarrow> Some (UploadFailed (''Upload failed: '' @ error), w1)
           | Some (Inr report, w1) \<Rightarrow> Some (Completed (Some report), w1))"

text \<open>
  What the report's counters are measured against. The session in which the upload loop,
  started in \<open>w\<close>, reaches the file with index \<open>i\<close>; and whether that file fails: it is gone
  when its turn comes, or its \<^verbatim>\<open>cpToDevice\<close> call, made in that session, is rejected.
\<close>

definition sessionAt ::
    "tool \<Rightarrow> (string \<Rightarrow> string) \<Rightarrow> (string \<Rightarrow> bool) \<Rightarrow> string \<Rightarrow> string list \<Rightarrow> world \<Rightarrow> nat
      \<Rightarrow> world" where
  "sessionAt t localPath accessible rootPath valid w i =
     snd (uploadEach t localPath accessible rootPath (take i valid) (0, 0) w)"

definition fileFails ::
    "tool \<Rightarrow> (string \<Rightarrow> string) \<Rightarrow> (string \<Rightarrow> bool) \<Rightarrow> string \<Rightarrow> string list \<Rightarrow> world \<Rightarrow> nat
      \<Rightarrow> bool" where
  "fileFails t localPath accessible rootPath valid w i =
     (\<not> accessible (localPath (valid ! i))
      \<or> isl (fst (cpToDevice t (localPath (valid ! i)) (posixJoin rootPath (valid ! i))
                    (sessionAt t localPath accessible rootPath valid w i))))"

text \<open>The copy command that uploads one manifest file.\<close>

definition uploadCommand :: "string \<Rightarrow> (string \<Rightarrow> string) \<Rightarrow> string \<Rightarrow> string \<Rightarrow> event" where
  "uploadCommand connect localPath rootPath relativePath =
     Exec [''connect'', connect, ''fs'', ''cp'', localPath relativePath,
           withPrefix (pathArgOf (posixJoin rootPath relativePath))]"

text \<open>
  A workspace at \<open>/ws\<close>, a local file system in which \<open>/ws/c.py\<close> disappears after the first
  pass, and the five files of the example; five files of which three lie in a directory,
  and a board that has no room for one of them: the copy of \<open>/ws/lib/c.py\<close> fails, every
  other run succeeds.
\<close>

definition underWs :: "string \<Rightarrow> string" where
  "underWs relativePath = ''/ws/'' @ relativePath"

definition allThere :: "string \<Rightarrow> bool" where
  "allThere p = True"

definition cGone :: "string \<Rightarrow> bool" where
  "cGone p = (p \<noteq> ''/ws/c.py'')"

definition fiveFiles :: "string list" where
  "fiveFiles = [''a.py'', ''b.py'', ''c.py'', ''d.py'', ''e.py'']"

definition libFiles :: "string list" where
  "libFiles = [''a.py'', ''lib/b.py'', ''lib/c.py'', ''lib/d.py'', ''e.py'']"

definition toolNoRoomForC :: tool where
  "toolNoRoomForC h args =
     (if isCopyRun (Exec args) \<and> ''/ws/lib/c.py'' \<in> set args
      then ExecErr ''mpremote: cp: OSError: [Errno 28] ENOSPC'' ''Command failed''
      else ExecOk [])"

section \<open>Path mapping: properties\<close>

lemma collapseSlashes_noslash:
  "slash \<notin> set s \<Longrightarrow> collapseSlashes s = s"
  by (induction s rule: collapseSlashes.induct) auto

lemma collapseSlashes_Cons_noslash:
  "c \<noteq> slash \<Longrightarrow> collapseSlashes (c # s) = c # collapseSlashes s"
  by (cases s) auto

lemma collapseSlashes_slash_Cons:
  "c \<noteq> slash \<Longrightarrow> collapseSlashes (slash # c # s) = slash # collapseSlashes (c # s)"
  by simp

lemma collapseSlashes_append_noslash:
  "slash \<notin> set a \<Longrightarrow> collapseSlashes (a @ s) = a @ collapseSlashes s"
  by (induction a) (auto simp: collapseSlashes_Cons_noslash)

lemma collapse_rel:
  assumes "x \<noteq> []" "slash \<notin> set x" "slash \<notin> set y"
  shows "collapseSlashes (x @ ''/'' @ y @ ''.py'') = x @ ''/'' @ y @ ''.py''"
proof -
  have py: "slash \<notin> set (y @ ''.py'')"
    using assms(3) by (simp add: slash_def)
  have ne: "y @ ''.py'' \<noteq> []" by simp
  obtain c t where ct: "y @ ''.py'' = c # t"
    using ne by (cases "y @ ''.py''") auto
  have c: "c \<noteq> slash" using py ct by auto
  have "collapseSlashes (slash # c # t) = slash # c # t"
    using collapseSlashes_slash_Cons [OF c] collapseSlashes_noslash [of "c # t"] py ct by simp
  then have "collapseSlashes (''/'' @ y @ ''.py'') = ''/'' @ y @ ''.py''"
    using ct by (simp add: slash_def)
  then show ?thesis
    using collapseSlashes_append_noslash [OF assms(2), of "''/'' @ y @ ''.py''"] by simp
qed

lemma rel_not_endsWithSlash: "\<not> endsWithSlash (x @ ''/'' @ y @ ''.py'')"
  by (simp add: endsWithSlash_def slash_def)

text \<open>
  Claim C4. For every remote root among \<open>/\<close>, \<open>/app\<close> and \<open>/app/\<close> and every
  relative path of the form \<open>x/y.py\<close> (\<open>x\<close> a non-empty name, no slash in \<open>x\<close> or \<open>y\<close>),
  mapping the device path to its workspace-relative path and back gives the device path
  again, the root's trailing slash being normalised.
\<close>

theorem path_mapping_round_trip:
  assumes "rootPath \<in> {''/'', ''/app'', ''/app/''}"
    and "x \<noteq> []" and "slash \<notin> set x" and "slash \<notin> set y"
  shows "toDevicePath (toLocalRelative (deviceOf rootPath x y) rootPath) rootPath
           = deviceOf rootPath x y"
proof -
  let ?rel = "x @ ''/'' @ y @ ''.py''"
  have nl: "stripTrailingSlash (collapseSlashes ?rel) = ?rel"
    using collapse_rel [OF assms(2,3,4)] rel_not_endsWithSlash [of x y]
    by (simp add: stripTrailingSlash_def)
  have ne: "?rel \<noteq> []" by simp
  consider "rootPath = ''/''" | "rootPath = ''/app''" | "rootPath = ''/app/''"
    using assms(1) by auto
  then show ?thesis
  proof cases
    case 1
    have "toLocalRelative (deviceOf rootPath x y) rootPath = ?rel"
      using 1 by (simp add: toLocalRelative_def deviceOf_def slash_def)
    moreover have "toDevicePath ?rel rootPath = ''/'' @ ?rel"
      using 1 nl by (simp add: toDevicePath_def Let_def stripTrailingSlash_def endsWithSlash_def slash_def)
    ultimately show ?thesis using 1 by (simp add: deviceOf_def)
  next
    case 2
    have "toLocalRelative (deviceOf rootPath x y) rootPath = ?rel"
      using 2 by (simp add: toLocalRelative_def deviceOf_def slash_def stripTrailingSlash_def
          endsWithSlash_def startsWith_def)
    moreover have "toDevicePath ?rel rootPath = ''/app'' @ ''/'' @ ?rel"
      using 2 nl ne by (simp add: toDevicePath_def Let_def stripTrailingSlash_def endsWithSlash_def slash_def)
    ultimately show ?thesis using 2
      by (simp add: deviceOf_def stripTrailingSlash_def endsWithSlash_def slash_def)
  next
    case 3
    have "toLocalRelative (deviceOf rootPath x y) rootPath = ?rel"
      using 3 by (simp add: toLocalRelative_def deviceOf_def slash_def stripTrailingSlash_def
          endsWithSlash_def startsWith_def)
    moreover have "toDevicePath ?rel rootPath = ''/app'' @ ''/'' @ ?rel"
      using 3 nl ne by (simp add: toDevicePath_def Let_def stripTrailingSlash_def endsWithSlash_def slash_def)
    ultimately show ?thesis using 3
      by (simp add: deviceOf_def stripTrailingSlash_def endsWithSlash_def slash_def)
  qed
qed

theorem path_mapping_round_trip_witness:
  "toDevicePath (toLocalRelative ''/app/x/y.py'' ''/app/'') ''/app/'' = ''/app/x/y.py''
   \<and> deviceOf ''/app/'' ''x'' ''y'' = ''/app/x/y.py''"
  using path_mapping_round_trip [of "''/app/''" "''x''" "''y''"]
  by (simp add: deviceOf_def stripTrailingSlash_def endsWithSlash_def slash_def)

section \<open>Operations on the board: properties\<close>

lemma andThen_simps:
  "m w = (Inl e, w') \<Longrightarrow> andThen m f w = (Inl e, w')"
  "m w = (Inr x, w') \<Longrightarrow> andThen m f w = f x w'"
  by (simp_all add: andThen_def)

lemma tryCatch_simps:
  "m w = (Inl e, w') \<Longrightarrow> tryCatch m h w = h e w'"
  "m w = (Inr x, w') \<Longrightarrow> tryCatch m h w = (Inr x, w')"
  by (simp_all add: tryCatch_def)

text \<open>
  Claim C10, amended. With no serial port selected (the setting empty or \<open>auto\<close>)
  \<^verbatim>\<open>fileExists\<close> throws the configuration error before any run of the tool. With a port
  selected it never throws: it resolves to \<open>true\<close> exactly when the stat run succeeds and to
  \<open>false\<close> for every failure, whatever the message says, so a dead transport reads as an
  absent file.
\<close>

theorem fileExists_result:
  "fileExists t p w =
     (if noPort (configuredConnect w) then (Inl selectPortMsg, w)
      else (Inr (\<not> isl (fst (runMpremote t [''connect'', configuredConnect w, ''fs'', ''stat'', pathArgOf p] True w))),
            snd (runMpremote t [''connect'', configuredConnect w, ''fs'', ''stat'', pathArgOf p] True w)))"
proof (cases "noPort (configuredConnect w)")
  case True
  then show ?thesis by (simp add: fileExists_def reject_def)
next
  case False
  obtain r w' where r: "runMpremote t [''connect'', configuredConnect w, ''fs'', ''stat'', pathArgOf p] True w = (r, w')"
    by (cases "runMpremote t [''connect'', configuredConnect w, ''fs'', ''stat'', pathArgOf p] True w")
  show ?thesis
  proof (cases r)
    case (Inl e)
    with r False show ?thesis
      by (simp add: fileExists_def Let_def tryCatch_def andThen_def resolve_def)
  next
    case (Inr out)
    with r False show ?thesis
      by (simp add: fileExists_def Let_def tryCatch_def andThen_def resolve_def)
  qed
qed

theorem fileExists_result_witness:
  "fileExists toolDown ''/lib'' portWorld =
     (Inr False,
      portWorld\<lparr>events :=
        [Exec [''connect'', ''/dev/ttyUSB0'', ''fs'', ''stat'', ''/lib''], Delay 500,
         Exec [''connect'', ''/dev/ttyUSB0'', ''fs'', ''stat'', ''/lib''], Delay 1000,
         Exec [''connect'', ''/dev/ttyUSB0'', ''fs'', ''stat'', ''/lib'']]\<rparr>)"
proof -
  have c: "configuredConnect portWorld = ''/dev/ttyUSB0''"
    by (simp add: configuredConnect_def portWorld_def normalizeConnect_def startsWith_def)
  have r: "runMpremote toolDown [''connect'', ''/dev/ttyUSB0'', ''fs'', ''stat'', ''/lib''] True portWorld =
     (Inl ''could not open port: Device not configured'',
      portWorld\<lparr>events :=
        [Exec [''connect'', ''/dev/ttyUSB0'', ''fs'', ''stat'', ''/lib''], Delay 500,
         Exec [''connect'', ''/dev/ttyUSB0'', ''fs'', ''stat'', ''/lib''], Delay 1000,
         Exec [''connect'', ''/dev/ttyUSB0'', ''fs'', ''stat'', ''/lib'']]\<rparr>)"
    by code_simp
  show ?thesis
    using fileExists_result [of toolDown "''/lib''" portWorld] c r
    by (simp add: noPort_def pathArgOf_def)
qed

text \<open>
  Claim C10 as stated (\<^verbatim>\<open>fileExists\<close> never throws) fails in the default configuration:
  with the connection setting \<open>auto\<close> the call is rejected.
\<close>

theorem fileExists_throws_counterexample:
  "fileExists toolOk ''/main.py'' autoWorld = (Inl ''Select a specific serial port first'', autoWorld)"
  by code_simp

text \<open>
  Claim C5 at \<^verbatim>\<open>deleteFile\<close>: the removal succeeds and the tree cache is still populated
  afterwards. The sibling operations \<^verbatim>\<open>mkdir\<close>, \<^verbatim>\<open>mvOnDevice\<close>, \<^verbatim>\<open>uploadReplacing\<close> and
  \<^verbatim>\<open>deleteAny\<close> clear the cache whenever they succeed (the lemmas after the theorem).
\<close>

theorem deleteFile_keeps_cache:
  "fst (deleteFile toolOk ''/main.py'' portWorld) = Inr ()
   \<and> cache (snd (deleteFile toolOk ''/main.py'' portWorld)) = Some [rootNode]"
  by code_simp

lemma mkdir_clears_cache:
  "mkdir t p w = (Inr u, w') \<Longrightarrow> cache w' = None"
  by (auto simp: mkdir_def Let_def tryCatch_def andThen_def reject_def clearFileTreeCache_def
      split: if_splits prod.splits sum.splits)

lemma mvOnDevice_clears_cache:
  "mvOnDevice t src dst w = (Inr u, w') \<Longrightarrow> cache w' = None"
  by (auto simp: mvOnDevice_def Let_def tryCatch_def andThen_def reject_def clearFileTreeCache_def
      split: if_splits prod.splits sum.splits)

lemma uploadReplacing_clears_cache:
  "uploadReplacing t l d w = (Inr u, w') \<Longrightarrow> cache w' = None"
  by (auto simp: uploadReplacing_def uploadReplacingOn_def Let_def tryCatch_def andThen_def
      reject_def resolve_def clearFileTreeCache_def succeeds_def
      split: if_splits prod.splits sum.splits)

lemma deleteAny_clears_cache:
  "deleteAny n t p w = Some (Inr u, w') \<Longrightarrow> cache w' = None"
  by (auto simp: deleteAny_def removeByKind_def Let_def andThen_def reject_def
      clearFileTreeCache_def
      split: if_splits prod.splits sum.splits option.splits)


section \<open>Traces of tool runs: composition lemmas\<close>

lemma emitsI:
  "(\<And>w. \<exists>new. events (snd (m w)) = events w @ new \<and> (\<forall>e \<in> set new. Q e)
            \<and> connectCfg (snd (m w)) = connectCfg w \<and> toolPath (snd (m w)) = toolPath w) \<Longrightarrow> emits Q m"
  by (simp add: emits_def)

lemma emitsD:
  "emits Q m \<Longrightarrow> \<exists>new. events (snd (m w)) = events w @ new \<and> (\<forall>e \<in> set new. Q e)
            \<and> connectCfg (snd (m w)) = connectCfg w \<and> toolPath (snd (m w)) = toolPath w"
  by (simp add: emits_def)

lemma emits_resolve: "emits Q (resolve x)"
  by (simp add: emits_def resolve_def)

lemma emits_reject: "emits Q (reject e)"
  by (simp add: emits_def reject_def)

lemma emits_clearFileTreeCache: "emits Q clearFileTreeCache"
  by (simp add: emits_def clearFileTreeCache_def)

lemma emits_andThen:
  assumes "emits Q m" and "\<And>x. emits Q (f x)"
  shows "emits Q (andThen m f)"
proof (rule emitsI)
  fix w
  obtain r w1 where m: "m w = (r, w1)" by (cases "m w")
  from emitsD [OF assms(1), of w] m obtain n1 where
    n1: "events w1 = events w @ n1" "\<forall>e \<in> set n1. Q e" "connectCfg w1 = connectCfg w" "toolPath w1 = toolPath w"
    by auto
  show "\<exists>new. events (snd (andThen m f w)) = events w @ new \<and> (\<forall>e \<in> set new. Q e)
            \<and> connectCfg (snd (andThen m f w)) = connectCfg w \<and> toolPath (snd (andThen m f w)) = toolPath w"
  proof (cases r)
    case (Inl e)
    with m n1 show ?thesis by (simp add: andThen_def)
  next
    case (Inr x)
    from emitsD [OF assms(2), of x w1] obtain n2 where
      n2: "events (snd (f x w1)) = events w1 @ n2" "\<forall>e \<in> set n2. Q e"
          "connectCfg (snd (f x w1)) = connectCfg w1" "toolPath (snd (f x w1)) = toolPath w1"
      by auto
    have "andThen m f w = f x w1" using m Inr by (simp add: andThen_def)
    with n1 n2 show ?thesis by auto
  qed
qed

lemma emits_tryCatch:
  assumes "emits Q m" and "\<And>e. emits Q (h e)"
  shows "emits Q (tryCatch m h)"
proof (rule emitsI)
  fix w
  obtain r w1 where m: "m w = (r, w1)" by (cases "m w")
  from emitsD [OF assms(1), of w] m obtain n1 where
    n1: "events w1 = events w @ n1" "\<forall>e \<in> set n1. Q e" "connectCfg w1 = connectCfg w" "toolPath w1 = toolPath w"
    by auto
  show "\<exists>new. events (snd (tryCatch m h w)) = events w @ new \<and> (\<forall>e \<in> set new. Q e)
            \<and> connectCfg (snd (tryCatch m h w)) = connectCfg w \<and> toolPath (snd (tryCatch m h w)) = toolPath w"
  proof (cases r)
    case (Inr x)
    with m n1 show ?thesis by (simp add: tryCatch_def)
  next
    case (Inl e)
    from emitsD [OF assms(2), of e w1] obtain n2 where
      n2: "events (snd (h e w1)) = events w1 @ n2" "\<forall>e \<in> set n2. Q e"
          "connectCfg (snd (h e w1)) = connectCfg w1" "toolPath (snd (h e w1)) = toolPath w1"
      by auto
    have "tryCatch m h w = h e w1" using m Inl by (simp add: tryCatch_def)
    with n1 n2 show ?thesis by auto
  qed
qed

lemma emits_if:
  "emits Q a \<Longrightarrow> emits Q b \<Longrightarrow> emits Q (if c then a else b)"
  by simp

lemma emits_ignoreErrors: "emits Q m \<Longrightarrow> emits Q (ignoreErrors m)"
  unfolding ignoreErrors_def
  by (intro emits_tryCatch emits_andThen emits_resolve)

lemma emits_succeeds: "emits Q m \<Longrightarrow> emits Q (succeeds m)"
  unfolding succeeds_def
  by (intro emits_tryCatch emits_andThen emits_resolve)

lemma emits_forEach: "(\<And>x. emits Q (f x)) \<Longrightarrow> emits Q (forEach xs f)"
  by (induction xs) (auto intro: emits_resolve emits_andThen)

lemma emits_delay: "Q (Delay n) \<Longrightarrow> emits Q (\<lambda>v. (Inr (), v\<lparr>events := events v @ [Delay n]\<rparr>))"
  by (simp add: emits_def)

lemma executeCommand_events:
  "\<exists>new. events (snd (executeCommand t args m a w)) = events w @ new
         \<and> set new \<subseteq> insert (Exec args) (range Delay)
         \<and> connectCfg (snd (executeCommand t args m a w)) = connectCfg w
         \<and> toolPath (snd (executeCommand t args m a w)) = toolPath w"
proof (induction t args m a w rule: executeCommand.induct)
  case (1 t args maxRetries attempt w)
  show ?case
  proof (cases "t (events w) args")
    case (ExecOk out)
    then show ?thesis by (simp add: executeCommand.simps [of t args maxRetries attempt w])
  next
    case (ExecErr err msg)
    show ?thesis
    proof (cases "attempt + 1 \<le> maxRetries \<and> isTransient (toLowerCase (if err \<noteq> [] then err else msg))")
      case False
      with ExecErr show ?thesis
        by (auto simp: Let_def executeCommand.simps [of t args maxRetries attempt w])
    next
      case True
      let ?w2 = "w\<lparr>events := events w @ [Exec args, Delay (500 * (attempt + 1))]\<rparr>"
      have step: "executeCommand t args maxRetries attempt w = executeCommand t args maxRetries (attempt + 1) ?w2"
        using ExecErr True by (simp add: Let_def executeCommand.simps [of t args maxRetries attempt w])
      from "1.IH" [OF refl refl ExecErr refl refl] True
      obtain new where new: "events (snd (executeCommand t args maxRetries (attempt + 1) ?w2)) = events ?w2 @ new"
        "set new \<subseteq> insert (Exec args) (range Delay)"
        "connectCfg (snd (executeCommand t args maxRetries (attempt + 1) ?w2)) = connectCfg ?w2"
        "toolPath (snd (executeCommand t args maxRetries (attempt + 1) ?w2)) = toolPath ?w2"
        by auto
      show ?thesis
        unfolding step using new
        by (intro exI [of _ "[Exec args, Delay (500 * (attempt + 1))] @ new"]) auto
    qed
  qed
qed

lemma emits_runMpremote:
  assumes "Q (Exec args)" and "\<And>n. Q (Delay n)"
  shows "emits Q (runMpremote t args b)"
proof (rule emitsI)
  fix w
  show "\<exists>new. events (snd (runMpremote t args b w)) = events w @ new \<and> (\<forall>e \<in> set new. Q e)
            \<and> connectCfg (snd (runMpremote t args b w)) = connectCfg w
            \<and> toolPath (snd (runMpremote t args b w)) = toolPath w"
  proof (cases "toolPath w")
    case None
    then show ?thesis by (simp add: runMpremote_def)
  next
    case (Some mp)
    from executeCommand_events [of t args "if b then 2 else 0" 0 w]
    obtain new where new: "events (snd (executeCommand t args (if b then 2 else 0) 0 w)) = events w @ new"
      "set new \<subseteq> insert (Exec args) (range Delay)"
      "connectCfg (snd (executeCommand t args (if b then 2 else 0) 0 w)) = connectCfg w"
      "toolPath (snd (executeCommand t args (if b then 2 else 0) 0 w)) = toolPath w"
      by blast
    have "\<forall>e \<in> set new. Q e" using new(2) assms by auto
    with new Some show ?thesis by (auto simp: runMpremote_def)
  qed
qed


section \<open>Copying to the board: which copy command is issued\<close>

lemma emits_ensureParent:
  assumes "\<And>args. length args > 3 \<Longrightarrow> args ! 3 = ''mkdir'' \<Longrightarrow> Q (Exec args)" and "\<And>n. Q (Delay n)"
  shows "emits Q (ensureParent t c d)"
  unfolding ensureParent_def Let_def
  by (intro emits_if emits_ignoreErrors emits_runMpremote emits_resolve assms) simp_all

lemma emits_createLevels:
  assumes "\<And>args. length args > 3 \<Longrightarrow> args ! 3 = ''mkdir'' \<Longrightarrow> Q (Exec args)" and "\<And>n. Q (Delay n)"
  shows "emits Q (createLevels t c d)"
  unfolding createLevels_def Let_def
  by (intro emits_forEach emits_ignoreErrors emits_runMpremote assms) simp_all

lemma uploadReplacingOn_emits:
  "emits (forcedCopyOnly c l (withPrefix (pathArgOf d))) (uploadReplacingOn t c l d)"
proof -
  let ?Q = "forcedCopyOnly c l (withPrefix (pathArgOf d))"
  have dl: "\<And>n. ?Q (Delay n)" by (simp add: forcedCopyOnly_def)
  have mk: "\<And>args. length args > 3 \<Longrightarrow> args ! 3 = ''mkdir'' \<Longrightarrow> ?Q (Exec args)"
    by (simp add: forcedCopyOnly_def)
  have cp: "\<And>b. emits ?Q (runMpremote t [''connect'', c, ''fs'', ''cp'', ''-f'', l, withPrefix (pathArgOf d)] b)"
    by (rule emits_runMpremote) (simp_all add: forcedCopyOnly_def)
  show ?thesis
    unfolding uploadReplacingOn_def Let_def
    by (intro emits_tryCatch emits_andThen emits_if emits_succeeds emits_resolve emits_reject
        emits_clearFileTreeCache cp emits_ensureParent emits_createLevels mk dl)
qed

lemma cpRecovery_emits:
  "emits (plainCopyOnly c l (withPrefix da)) (cpRecovery t c l da e)"
proof -
  let ?Q = "plainCopyOnly c l (withPrefix da)"
  have dl: "\<And>n. ?Q (Delay n)" by (simp add: plainCopyOnly_def)
  have mk: "\<And>args. length args > 3 \<Longrightarrow> args ! 3 = ''mkdir'' \<Longrightarrow> ?Q (Exec args)"
    by (simp add: plainCopyOnly_def)
  have cp: "\<And>b. emits ?Q (runMpremote t [''connect'', c, ''fs'', ''cp'', l, withPrefix da] b)"
    by (rule emits_runMpremote) (simp_all add: plainCopyOnly_def)
  have other: "\<And>args b. \<not> isCopyRun (Exec args) \<Longrightarrow> emits ?Q (runMpremote t args b)"
    by (rule emits_runMpremote) (simp_all add: plainCopyOnly_def)
  show ?thesis
    unfolding cpRecovery_def Let_def
    by (intro emits_tryCatch emits_andThen emits_if emits_succeeds emits_ignoreErrors emits_resolve
        emits_reject emits_clearFileTreeCache cp emits_createLevels mk dl
        emits_delay other) simp_all
qed

lemma cpToDeviceOn_emits:
  "emits (plainCopyOnly c l (withPrefix (pathArgOf d))) (cpToDeviceOn t c l d)"
proof -
  let ?Q = "plainCopyOnly c l (withPrefix (pathArgOf d))"
  have dl: "\<And>n. ?Q (Delay n)" by (simp add: plainCopyOnly_def)
  have mk: "\<And>args. length args > 3 \<Longrightarrow> args ! 3 = ''mkdir'' \<Longrightarrow> ?Q (Exec args)"
    by (simp add: plainCopyOnly_def)
  have cp: "\<And>b. emits ?Q (runMpremote t [''connect'', c, ''fs'', ''cp'', l, withPrefix (pathArgOf d)] b)"
    by (rule emits_runMpremote) (simp_all add: plainCopyOnly_def)
  show ?thesis
    unfolding cpToDeviceOn_def Let_def
    by (intro emits_tryCatch emits_andThen emits_resolve emits_clearFileTreeCache cp
        emits_ensureParent cpRecovery_emits mk dl)
qed

section \<open>Deleting on the board: the manual fallback\<close>

text \<open>
  The fallback skips every listing line that contains \<open>ls\<close>, which is meant for the header
  line \<open>ls :/d\<close> but also matches names such as \<open>models.py\<close>.
\<close>

lemma lsItem_skips_ls_names:
  "lsItem ''/d'' ''          10 models.py'' = None"
  by code_simp

text \<open>
  Claim C6 at a directory \<open>/d\<close> that holds \<open>models.py\<close> and \<open>main.py\<close>: after the stat
  run and the failed recursive remove, the manual fallback lists \<open>/d\<close>, removes
  \<open>main.py\<close>, never issues a remove for \<open>models.py\<close>, and the final removal of the
  directory fails, so \<^verbatim>\<open>deleteAny\<close> throws.
\<close>

theorem deleteAny_skips_child:
  "deleteAny 1 toolModelsDir ''/d'' portWorld =
     Some (Inl ''Failed to delete directory /d: mpremote: rmdir: /d: Directory not empty'',
           portWorld\<lparr>events :=
             [Exec [''connect'', ''/dev/ttyUSB0'', ''fs'', ''stat'', ''/d''],
              Exec [''connect'', ''/dev/ttyUSB0'', ''fs'', ''rm'', ''-r'', ''/d''],
              Exec [''connect'', ''/dev/ttyUSB0'', ''fs'', ''ls'', ''/d''],
              Exec [''connect'', ''/dev/ttyUSB0'', ''fs'', ''rm'', ''/d/main.py''],
              Exec [''connect'', ''/dev/ttyUSB0'', ''fs'', ''rmdir'', ''/d'']]\<rparr>)"
  by code_simp


section \<open>The port guard\<close>

text \<open>
  With no serial port selected, each of these operations is rejected with the configuration
  error and the session is untouched: no run of the tool is attempted.
\<close>

lemma port_guard:
  assumes "noPort (configuredConnect w)"
  shows "mkdir t p w = (Inl selectPortMsg, w)"
    and "cpToDevice t l d w = (Inl selectPortMsg, w)"
    and "uploadReplacing t l d w = (Inl selectPortMsg, w)"
    and "cpFromDevice t d l w = (Inl selectPortMsg, w)"
    and "deleteFile t p w = (Inl selectPortMsg, w)"
    and "deleteAny n t p w = Some (Inl selectPortMsg, w)"
    and "fileExists t p w = (Inl selectPortMsg, w)"
    and "getFileInfo t p w = (Inl selectPortMsg, w)"
    and "listTreeStats t clk p w = (Inl selectPortMsg, w)"
    and "mvOnDevice t p d w = (Inl selectPortMsg, w)"
  using assms
  by (simp_all add: mkdir_def cpToDevice_def uploadReplacing_def cpFromDevice_def deleteFile_def
      deleteAny_def fileExists_def getFileInfo_def listTreeStats_def mvOnDevice_def reject_def Let_def)

text \<open>
  Claim C8 at the directory listing \<^verbatim>\<open>lsTyped\<close>, which has no port guard: with the
  connection setting \<open>auto\<close> it runs the tool with \<^verbatim>\<open>connect auto\<close> (three times on a board
  that answers with empty output) and resolves instead of failing with the configuration
  error.
\<close>

theorem lsTyped_runs_tool_on_auto:
  "lsTyped toolOk (clockAt 50000) ''/'' autoWorld =
     (Inr [],
      autoWorld\<lparr>cache := Some [rootNode], lastTreeUpdate := 50000,
                 treePathsFile := Some (50000, []),
                 events := [Exec [''connect'', ''auto'', ''fs'', ''tree''],
                            Exec [''connect'', ''auto'', ''fs'', ''tree''],
                            Exec [''connect'', ''auto'', ''fs'', ''ls'']]\<rparr>)"
  by code_simp


section \<open>Retries and failed listings\<close>

lemma executeCommand_trace:
  "\<exists>k. (k = 0 \<or> a + k \<le> m)
       \<and> events (snd (executeCommand t args m a w)) = events w @ retryTrace args a k
       \<and> (\<forall>i<k. failedTransient (t (events w @ take (2 * i) (retryTrace args a k)) args))
       \<and> (isl (fst (executeCommand t args m a w))
            = runFailed (t (events w @ take (2 * k) (retryTrace args a k)) args))
       \<and> snd (executeCommand t args m a w)
            = w\<lparr>events := events (snd (executeCommand t args m a w))\<rparr>"
proof (induction t args m a w rule: executeCommand.induct)
  case (1 t args maxRetries attempt w)
  show ?case
  proof (cases "t (events w) args")
    case (ExecOk out)
    then show ?thesis
      by (intro exI [of _ 0]) (simp add: executeCommand.simps [of t args maxRetries attempt w])
  next
    case (ExecErr err msg)
    show ?thesis
    proof (cases "attempt + 1 \<le> maxRetries \<and> isTransient (toLowerCase (if err \<noteq> [] then err else msg))")
      case False
      with ExecErr show ?thesis
        by (intro exI [of _ 0]) (auto simp: Let_def executeCommand.simps [of t args maxRetries attempt w])
    next
      case True
      define w1 where "w1 = w\<lparr>events := events w @ [Exec args]\<rparr>"
      define w2 where "w2 = w1\<lparr>events := events w1 @ [Delay (500 * (attempt + 1))]\<rparr>"
      define R where "R = executeCommand t args maxRetries (attempt + 1) w2"
      have ev2: "events w2 = events w @ [Exec args, Delay (500 * (attempt + 1))]"
        by (simp add: w2_def w1_def)
      have w2w: "w2\<lparr>events := es\<rparr> = w\<lparr>events := es\<rparr>" for es
        by (simp add: w2_def w1_def)
      have step: "executeCommand t args maxRetries attempt w = R"
        using ExecErr True
        by (simp add: Let_def executeCommand.simps [of t args maxRetries attempt w] R_def w2_def w1_def)
      have "\<exists>k. (k = 0 \<or> attempt + 1 + k \<le> maxRetries)
         \<and> events (snd R) = events w2 @ retryTrace args (attempt + 1) k
         \<and> (\<forall>i<k. failedTransient (t (events w2 @ take (2 * i) (retryTrace args (attempt + 1) k)) args))
         \<and> (isl (fst R) = runFailed (t (events w2 @ take (2 * k) (retryTrace args (attempt + 1) k)) args))
         \<and> snd R = w2\<lparr>events := events (snd R)\<rparr>"
        unfolding R_def w2_def w1_def
        by (rule "1.IH" [OF refl refl ExecErr refl refl True])
      then obtain k where k: "k = 0 \<or> attempt + 1 + k \<le> maxRetries"
        "events (snd R) = events w2 @ retryTrace args (attempt + 1) k"
        "\<forall>i<k. failedTransient (t (events w2 @ take (2 * i) (retryTrace args (attempt + 1) k)) args)"
        "isl (fst R) = runFailed (t (events w2 @ take (2 * k) (retryTrace args (attempt + 1) k)) args)"
        "snd R = w2\<lparr>events := events (snd R)\<rparr>"
        by blast
      have b: "Suc k = 0 \<or> attempt + Suc k \<le> maxRetries" using k(1) True by auto
      have e: "events (snd R) = events w @ retryTrace args attempt (Suc k)"
        using k(2) ev2 by simp
      have tr: "\<forall>i<Suc k. failedTransient (t (events w @ take (2 * i) (retryTrace args attempt (Suc k))) args)"
      proof (intro allI impI)
        fix i assume i: "i < Suc k"
        show "failedTransient (t (events w @ take (2 * i) (retryTrace args attempt (Suc k))) args)"
        proof (cases i)
          case 0
          then show ?thesis using ExecErr True by simp
        next
          case (Suc j)
          then have "j < k" using i by simp
          with k(3) have "failedTransient (t (events w2 @ take (2 * j) (retryTrace args (attempt + 1) k)) args)"
            by blast
          then show ?thesis using Suc ev2 by simp
        qed
      qed
      have f: "isl (fst R) = runFailed (t (events w @ take (2 * Suc k) (retryTrace args attempt (Suc k))) args)"
        using k(4) ev2 by simp
      have s: "snd R = w\<lparr>events := events (snd R)\<rparr>"
        using k(5) w2w by simp
      show ?thesis
        unfolding step using b e tr f s by (intro exI [of _ "Suc k"]) blast
    qed
  qed
qed


lemma runMpremote_trace:
  assumes "toolPath w \<noteq> None"
  shows "\<exists>k\<le>(if retry then 2 else 0).
       events (snd (runMpremote t args retry w)) = events w @ retryTrace args 0 k
       \<and> (\<forall>i<k. failedTransient (t (events w @ take (2 * i) (retryTrace args 0 k)) args))
       \<and> (isl (fst (runMpremote t args retry w))
            = runFailed (t (events w @ take (2 * k) (retryTrace args 0 k)) args))"
proof -
  from assms have r: "runMpremote t args retry w = executeCommand t args (if retry then 2 else 0) 0 w"
    by (auto simp: runMpremote_def)
  from executeCommand_trace [of 0 "if retry then 2 else 0" t args w]
  obtain k where k: "k = 0 \<or> 0 + k \<le> (if retry then 2 else 0)"
    "events (snd (executeCommand t args (if retry then 2 else 0) 0 w)) = events w @ retryTrace args 0 k"
    "\<forall>i<k. failedTransient (t (events w @ take (2 * i) (retryTrace args 0 k)) args)"
    "isl (fst (executeCommand t args (if retry then 2 else 0) 0 w))
       = runFailed (t (events w @ take (2 * k) (retryTrace args 0 k)) args)"
    by blast
  from k(1) have "k \<le> (if retry then 2 else 0)" by auto
  with k(2,3,4) show ?thesis unfolding r by blast
qed

lemma listTreeStats_rejects:
  assumes "\<not> noPort (configuredConnect w)" and "freshTreePaths clk w = None"
    and "runMpremote t ([''connect'', configuredConnect w, ''fs'', ''tree'']
            @ (if root \<noteq> [] \<and> root \<noteq> ''/'' then [root] else [])) True w = (Inl e, w1)"
  shows "listTreeStats t clk root w = (Inl e, w1)"
  using assms by (simp add: listTreeStats_def Let_def tryCatch_def andThen_def reject_def)

lemma populate_rejects:
  assumes "runMpremote t [''connect'', configuredConnect w, ''fs'', ''tree''] True w = (Inl e, w1)"
  shows "populateFileTreeCache t clk w = (Inl e, w1)"
  using assms by (simp add: populateFileTreeCache_def Let_def andThen_def)

lemma lsTyped_rejects_populate:
  assumes "\<not> isCacheValid clk w"
    and "runMpremote t [''connect'', configuredConnect w, ''fs'', ''tree''] True w = (Inl e, w1)"
  shows "lsTyped t clk p w = (Inl e, w1)"
  using assms populate_rejects [OF assms(2), of clk]
  by (simp add: lsTyped_def Let_def andThen_def)

lemma lsDirect_rejects:
  assumes "runMpremote t [''connect'', c, ''fs'', ''tree''] True v = (Inl e, v1)"
  shows "lsDirect t c p v = (Inl e, v1)"
  using assms by (simp add: lsDirect_def andThen_def)

lemma lsDirect_empty:
  assumes "lsDirect t c p v = (Inr [], v')"
  shows "\<exists>out v1. runMpremote t [''connect'', c, ''fs'', ''tree''] True v = (Inr out, v1)
            \<and> parseTreeForPath out p = []"
proof (cases "runMpremote t [''connect'', c, ''fs'', ''tree''] True v")
  case (Pair r v1)
  show ?thesis
  proof (cases r)
    case (Inl e)
    with Pair assms show ?thesis by (simp add: lsDirect_def andThen_def)
  next
    case (Inr out)
    show ?thesis
    proof (cases "parseTreeForPath out p = []")
      case True
      with Pair Inr show ?thesis by simp
    next
      case False
      with Pair Inr assms show ?thesis
        by (simp add: lsDirect_def andThen_def Let_def resolve_def)
    qed
  qed
qed

lemma lsTyped_cases:
  "lsTyped t clk p w = (Inr r, w') \<Longrightarrow>
     (r \<noteq> [] \<and> getEntriesFromCache (cache (afterCacheStep t clk w)) p = Some r \<and> w' = afterCacheStep t clk w)
     \<or> lsDirect t (configuredConnect w) p (afterCacheStep t clk w) = (Inr r, w')"
  by (auto simp: lsTyped_def Let_def andThen_def resolve_def afterCacheStep_def
      split: if_splits prod.splits sum.splits option.splits)

lemma lsTyped_empty:
  assumes "lsTyped t clk p w = (Inr [], w')"
  shows "\<exists>out v1. runMpremote t [''connect'', configuredConnect w, ''fs'', ''tree''] True
                    (afterCacheStep t clk w) = (Inr out, v1)
            \<and> parseTreeForPath out p = []"
  using lsTyped_cases [OF assms] lsDirect_empty by blast

lemma lsTyped_rejects_direct:
  assumes "lsTyped t clk p w = (Inr r, w')"
    and "runMpremote t [''connect'', configuredConnect w, ''fs'', ''tree''] True
           (afterCacheStep t clk w) = (Inl e, v1)"
  shows "r \<noteq> [] \<and> getEntriesFromCache (cache (afterCacheStep t clk w)) p = Some r"
  using lsTyped_cases [OF assms(1)] lsDirect_rejects [OF assms(2), of p] by auto


text \<open>
  Claim C7, amended. A failed run of the tool is retried at most twice (not at all when
  retrying is switched off), after 500 and then 1000 milliseconds, and only when the failure
  carried a transient connection message; the call is rejected exactly when its last run
  failed. When the tree run of \<^verbatim>\<open>listTreeStats\<close> is rejected, \<^verbatim>\<open>listTreeStats\<close> is rejected
  with the same error; when the tree run that populates the cache is rejected, \<^verbatim>\<open>lsTyped\<close>
  is rejected with the same error; and \<^verbatim>\<open>lsTyped\<close> resolves to an empty list only after a
  tree run that succeeded and showed no entries for the path. (A failure of the last-resort
  \<^verbatim>\<open>fs ls\<close> run after such a tree run is logged, not surfaced.)
\<close>

theorem retries_bounded_listing_failures_surface:
  "(toolPath w \<noteq> None \<longrightarrow>
      (\<exists>k\<le>(if retry then 2 else 0).
         events (snd (runMpremote t args retry w)) = events w @ retryTrace args 0 k
         \<and> (\<forall>i<k. failedTransient (t (events w @ take (2 * i) (retryTrace args 0 k)) args))
         \<and> (isl (fst (runMpremote t args retry w))
              = runFailed (t (events w @ take (2 * k) (retryTrace args 0 k)) args))))
   \<and> (\<not> noPort (configuredConnect w) \<and> freshTreePaths clk w = None
        \<and> runMpremote t ([''connect'', configuredConnect w, ''fs'', ''tree'']
              @ (if root \<noteq> [] \<and> root \<noteq> ''/'' then [root] else [])) True w = (Inl e, w1)
      \<longrightarrow> listTreeStats t clk root w = (Inl e, w1))
   \<and> (\<not> isCacheValid clk w
        \<and> runMpremote t [''connect'', configuredConnect w, ''fs'', ''tree''] True w = (Inl e, w1)
      \<longrightarrow> lsTyped t clk p w = (Inl e, w1))
   \<and> (lsTyped t clk p w = (Inr [], w')
      \<longrightarrow> (\<exists>out v1. runMpremote t [''connect'', configuredConnect w, ''fs'', ''tree''] True
                       (afterCacheStep t clk w) = (Inr out, v1)
                  \<and> parseTreeForPath out p = []))"
  using runMpremote_trace [of w retry t args] listTreeStats_rejects [of w clk t root e w1]
    lsTyped_rejects_populate [of clk w t e w1 p] lsTyped_empty [of t clk p w w']
  by blast

theorem retries_bounded_listing_failures_surface_witness:
  "toolPath portWorld \<noteq> None
   \<and> events (snd (runMpremote toolDown [''connect'', ''/dev/ttyUSB0'', ''fs'', ''tree''] True portWorld))
       = retryTrace [''connect'', ''/dev/ttyUSB0'', ''fs'', ''tree''] 0 2
   \<and> retryTrace [''connect'', ''/dev/ttyUSB0'', ''fs'', ''tree''] 0 2
       = [Exec [''connect'', ''/dev/ttyUSB0'', ''fs'', ''tree''], Delay 500,
          Exec [''connect'', ''/dev/ttyUSB0'', ''fs'', ''tree''], Delay 1000,
          Exec [''connect'', ''/dev/ttyUSB0'', ''fs'', ''tree'']]
   \<and> \<not> noPort (configuredConnect portWorld)
   \<and> freshTreePaths (clockAt 50000) portWorld = None
   \<and> \<not> isCacheValid (clockAt 50000) portWorld
   \<and> fst (runMpremote toolDown [''connect'', configuredConnect portWorld, ''fs'', ''tree''] True portWorld)
       = Inl ''could not open port: Device not configured''
   \<and> fst (listTreeStats toolDown (clockAt 50000) ''/'' portWorld)
       = Inl ''could not open port: Device not configured''
   \<and> fst (lsTyped toolDown (clockAt 50000) ''/lib'' portWorld)
       = Inl ''could not open port: Device not configured''
   \<and> fst (lsTyped toolTreeOnly (clockAt 50000) ''/lib'' portWorld) = Inr []
   \<and> fst (runMpremote toolTreeOnly [''connect'', configuredConnect portWorld, ''fs'', ''tree''] True
            (afterCacheStep toolTreeOnly (clockAt 50000) portWorld))
       = Inr (''tree :/'' @ [CHR 0x0A])
   \<and> parseTreeForPath (''tree :/'' @ [CHR 0x0A]) ''/lib'' = []"
proof -
  have 1: "toolPath portWorld \<noteq> None" by code_simp
  have 2: "events (snd (runMpremote toolDown [''connect'', ''/dev/ttyUSB0'', ''fs'', ''tree''] True portWorld))
       = retryTrace [''connect'', ''/dev/ttyUSB0'', ''fs'', ''tree''] 0 2" by code_simp
  have 3: "retryTrace [''connect'', ''/dev/ttyUSB0'', ''fs'', ''tree''] 0 2
       = [Exec [''connect'', ''/dev/ttyUSB0'', ''fs'', ''tree''], Delay 500,
          Exec [''connect'', ''/dev/ttyUSB0'', ''fs'', ''tree''], Delay 1000,
          Exec [''connect'', ''/dev/ttyUSB0'', ''fs'', ''tree'']]" by code_simp
  have 4: "\<not> noPort (configuredConnect portWorld)" by code_simp
  have 5: "freshTreePaths (clockAt 50000) portWorld = None" by code_simp
  have 6: "\<not> isCacheValid (clockAt 50000) portWorld" by code_simp
  have 7: "fst (runMpremote toolDown [''connect'', configuredConnect portWorld, ''fs'', ''tree''] True portWorld)
       = Inl ''could not open port: Device not configured''" by code_simp
  have 8: "fst (listTreeStats toolDown (clockAt 50000) ''/'' portWorld)
       = Inl ''could not open port: Device not configured''" by code_simp
  have 9: "fst (lsTyped toolDown (clockAt 50000) ''/lib'' portWorld)
       = Inl ''could not open port: Device not configured''" by code_simp
  have 10: "fst (lsTyped toolTreeOnly (clockAt 50000) ''/lib'' portWorld) = Inr []" by code_simp
  have 11: "fst (runMpremote toolTreeOnly [''connect'', configuredConnect portWorld, ''fs'', ''tree''] True
            (afterCacheStep toolTreeOnly (clockAt 50000) portWorld))
       = Inr (''tree :/'' @ [CHR 0x0A])" by code_simp
  have 12: "parseTreeForPath (''tree :/'' @ [CHR 0x0A]) ''/lib'' = []" by code_simp
  from retries_bounded_listing_failures_surface
         [where w = portWorld and t = toolDown and retry = True and clk = "clockAt 50000"
            and args = "[''connect'', ''/dev/ttyUSB0'', ''fs'', ''tree'']" and root = "''/''"
            and p = "''/lib''"]
    1 2 3 4 5 6 7 8 9 10 11 12
  show ?thesis by blast
qed


text \<open>
  Claim C7 as stated (a listing whose tool run fails is rejected and never resolves to an
  empty list) fails in the last fallback of \<^verbatim>\<open>lsTyped\<close>: on a board whose tree shows no
  entries for \<open>/lib\<close> and whose transport then goes away, the \<^verbatim>\<open>fs ls /lib\<close> run fails
  three times with a transient error and \<^verbatim>\<open>lsTyped\<close> resolves to the empty list.
\<close>

theorem lsTyped_swallows_failure_counterexample:
  "lsTyped toolTreeOnly (clockAt 50000) ''/lib'' portWorld =
     (Inr [],
      portWorld\<lparr>cache := Some [rootNode], lastTreeUpdate := 50000,
                 treePathsFile := Some (50000, []),
                 events := [Exec [''connect'', ''/dev/ttyUSB0'', ''fs'', ''tree''],
                            Exec [''connect'', ''/dev/ttyUSB0'', ''fs'', ''tree''],
                            Exec [''connect'', ''/dev/ttyUSB0'', ''fs'', ''ls'', ''/lib''], Delay 500,
                            Exec [''connect'', ''/dev/ttyUSB0'', ''fs'', ''ls'', ''/lib''], Delay 1000,
                            Exec [''connect'', ''/dev/ttyUSB0'', ''fs'', ''ls'', ''/lib'']]\<rparr>)"
  by code_simp


section \<open>Copying to the board: the copy run and its failure\<close>

lemma emits_mono:
  "emits Q m \<Longrightarrow> set (events w) \<subseteq> set (events (snd (m w)))"
  using emitsD [of Q m w] by auto

lemma runMpremote_runs:
  assumes "toolPath w \<noteq> None"
  shows "Exec args \<in> set (events (snd (runMpremote t args b w)))"
proof -
  have "Exec args \<in> set (retryTrace args a k)" for a k
    by (induction k arbitrary: a) auto
  with runMpremote_trace [OF assms, of b t args] show ?thesis by auto
qed

lemma ensureParent_resolves:
  "\<exists>w1. ensureParent t c d w = (Inr (), w1)"
  by (auto simp: ensureParent_def Let_def ignoreErrors_def tryCatch_def andThen_def resolve_def
      split: prod.splits sum.splits)

lemma ensureParent_keeps:
  "toolPath (snd (ensureParent t c d w)) = toolPath w"
proof -
  have "emits (\<lambda>e. True) (ensureParent t c d)"
    by (rule emits_ensureParent) simp_all
  from emitsD [OF this, of w] show ?thesis by simp
qed

lemma cpToDeviceOn_attempts:
  assumes "toolPath w \<noteq> None"
  shows "Exec [''connect'', c, ''fs'', ''cp'', l, withPrefix (pathArgOf d)]
           \<in> set (events (snd (cpToDeviceOn t c l d w)))"
proof -
  let ?args = "[''connect'', c, ''fs'', ''cp'', l, withPrefix (pathArgOf d)]"
  define body where "body = andThen (ensureParent t c (pathArgOf d))
      (\<lambda>_. andThen (runMpremote t ?args True) (\<lambda>_. clearFileTreeCache))"
  have cp: "cpToDeviceOn t c l d = tryCatch body (cpRecovery t c l (pathArgOf d))"
    by (simp add: cpToDeviceOn_def Let_def body_def)
  from ensureParent_resolves obtain w1 where w1: "ensureParent t c (pathArgOf d) w = (Inr (), w1)"
    by blast
  from ensureParent_keeps [of t c "pathArgOf d" w] w1 have tp: "toolPath w1 = toolPath w" by simp
  have run: "Exec ?args \<in> set (events (snd (runMpremote t ?args True w1)))"
    using runMpremote_runs [of w1 ?args t True] tp assms by simp
  have inbody: "Exec ?args \<in> set (events (snd (body w)))"
  proof (cases "runMpremote t ?args True w1")
    case (Pair r w2)
    with run w1 show ?thesis
      by (cases r) (simp_all add: body_def andThen_def clearFileTreeCache_def)
  qed
  show ?thesis
  proof (cases "body w")
    case (Pair r w3)
    show ?thesis
    proof (cases r)
      case (Inr u)
      with Pair inbody cp show ?thesis by (simp add: tryCatch_def)
    next
      case (Inl e)
      from emits_mono [OF cpRecovery_emits [where c = c and l = l and da = "pathArgOf d" and t = t and e = e],
          where w = w3] Pair inbody
      have "Exec ?args \<in> set (events (snd (cpRecovery t c l (pathArgOf d) e w3)))" by auto
      with Pair Inl cp show ?thesis by (simp add: tryCatch_def)
    qed
  qed
qed

lemma cpToDevice_attempts:
  assumes "toolPath w \<noteq> None" and "\<not> noPort (configuredConnect w)"
  shows "Exec [''connect'', configuredConnect w, ''fs'', ''cp'', l, withPrefix (pathArgOf d)]
           \<in> set (events (snd (cpToDevice t l d w)))"
  using cpToDeviceOn_attempts [OF assms(1), of "configuredConnect w" l d t] assms(2)
  by (simp add: cpToDevice_def)

lemma cpToDevice_keeps:
  "set (events w) \<subseteq> set (events (snd (cpToDevice t l d w)))
   \<and> connectCfg (snd (cpToDevice t l d w)) = connectCfg w
   \<and> toolPath (snd (cpToDevice t l d w)) = toolPath w"
proof (cases "noPort (configuredConnect w)")
  case True
  then show ?thesis by (simp add: cpToDevice_def reject_def)
next
  case False
  from emitsD [OF cpToDeviceOn_emits [where c = "configuredConnect w" and l = l and d = d and t = t],
          where w = w] False
  show ?thesis by (auto simp: cpToDevice_def)
qed

lemma uploadReplacingOn_attempts:
  assumes "toolPath w \<noteq> None"
  shows "Exec [''connect'', c, ''fs'', ''cp'', ''-f'', l, withPrefix (pathArgOf d)]
           \<in> set (events (snd (uploadReplacingOn t c l d w)))"
proof -
  let ?args = "[''connect'', c, ''fs'', ''cp'', ''-f'', l, withPrefix (pathArgOf d)]"
  define body where "body = andThen (ensureParent t c (pathArgOf d))
      (\<lambda>_. andThen (runMpremote t ?args True) (\<lambda>_. clearFileTreeCache))"
  define h where "h = (\<lambda>error.
           let errorStr = toLowerCase (errorString error) in
           andThen
             (if isMissingDirError errorStr
              then andThen (createLevels t c (pathArgOf d)) (\<lambda>_.
                   succeeds (andThen (runMpremote t ?args False) (\<lambda>_. clearFileTreeCache)))
              else resolve False) (\<lambda>done1.
           if done1 then resolve () else reject error))"
  have up: "uploadReplacingOn t c l d = tryCatch body h"
    by (simp add: uploadReplacingOn_def Let_def body_def h_def)
  have hm: "emits (\<lambda>e. True) (h e)" for e
    unfolding h_def Let_def
    by (intro emits_andThen emits_if emits_succeeds emits_resolve emits_reject
        emits_clearFileTreeCache emits_createLevels emits_runMpremote) simp_all
  from ensureParent_resolves obtain w1 where w1: "ensureParent t c (pathArgOf d) w = (Inr (), w1)"
    by blast
  from ensureParent_keeps [of t c "pathArgOf d" w] w1 have tp: "toolPath w1 = toolPath w" by simp
  have run: "Exec ?args \<in> set (events (snd (runMpremote t ?args True w1)))"
    using runMpremote_runs [of w1 ?args t True] tp assms by simp
  have inbody: "Exec ?args \<in> set (events (snd (body w)))"
  proof (cases "runMpremote t ?args True w1")
    case (Pair r w2)
    with run w1 show ?thesis
      by (cases r) (simp_all add: body_def andThen_def clearFileTreeCache_def)
  qed
  show ?thesis
  proof (cases "body w")
    case (Pair r w3)
    show ?thesis
    proof (cases r)
      case (Inr u)
      with Pair inbody up show ?thesis by (simp add: tryCatch_def)
    next
      case (Inl e)
      from emits_mono [OF hm [of e], where w = w3] Pair inbody
      have "Exec ?args \<in> set (events (snd (h e w3)))" by auto
      with Pair Inl up show ?thesis by (simp add: tryCatch_def)
    qed
  qed
qed

text \<open>
  A failure of the copy run that starts no recovery is the failure of the upload.
\<close>

lemma uploadReplacingOn_rejects:
  assumes "runMpremote t [''connect'', c, ''fs'', ''cp'', ''-f'', l, withPrefix (pathArgOf d)] True
             (snd (ensureParent t c (pathArgOf d) w)) = (Inl e, w2)"
    and "\<not> isMissingDirError (toLowerCase (errorString e))"
  shows "uploadReplacingOn t c l d w = (Inl e, w2)"
proof -
  from ensureParent_resolves obtain w1 where w1: "ensureParent t c (pathArgOf d) w = (Inr (), w1)"
    by blast
  with assms show ?thesis
    by (simp add: uploadReplacingOn_def Let_def tryCatch_def andThen_def resolve_def reject_def)
qed

lemma cpToDeviceOn_rejects:
  assumes "runMpremote t [''connect'', c, ''fs'', ''cp'', l, withPrefix (pathArgOf d)] True
             (snd (ensureParent t c (pathArgOf d) w)) = (Inl e, w2)"
    and "\<not> isMissingDirError (toLowerCase (errorString e))"
    and "\<not> includesStr (toLowerCase (errorString e)) ''read-only file system''"
  shows "cpToDeviceOn t c l d w = (Inl e, w2)"
proof -
  from ensureParent_resolves obtain w1 where w1: "ensureParent t c (pathArgOf d) w = (Inr (), w1)"
    by blast
  with assms show ?thesis
    by (simp add: cpToDeviceOn_def cpRecovery_def Let_def tryCatch_def andThen_def resolve_def
        reject_def)
qed

text \<open>
  Claim C9, amended. \<^verbatim>\<open>uploadReplacing\<close>, the upload used by the difference-based sync
  operations, issues every copy in the force variant \<^verbatim>\<open>fs cp -f <local> :<remote>\<close>, also
  when it retries after creating the parent directories. \<^verbatim>\<open>cpToDevice\<close>, the upload used
  by the baseline sync, issues every copy as plain \<^verbatim>\<open>fs cp <local> :<remote>\<close> without a
  force flag, on its first try and in each of its recoveries. With a port selected and
  the tool found, each of them does run its copy command. Neither of them handles a
  refusal to overwrite: when the copy run fails with a message that starts no recovery (a
  missing directory, and for \<^verbatim>\<open>cpToDevice\<close> also a read-only file system), the upload is
  rejected with that message, so whether an upload onto an existing file fails with "file
  exists" is decided by the tool's copy command alone.
\<close>

theorem upload_copy_variants:
  "(\<exists>new. events (snd (uploadReplacing t l d w)) = events w @ new
      \<and> (\<forall>e \<in> set new. forcedCopyOnly (configuredConnect w) l (withPrefix (pathArgOf d)) e))
   \<and> (\<exists>new. events (snd (cpToDevice t l d w)) = events w @ new
      \<and> (\<forall>e \<in> set new. plainCopyOnly (configuredConnect w) l (withPrefix (pathArgOf d)) e))
   \<and> (toolPath w \<noteq> None \<and> \<not> noPort (configuredConnect w) \<longrightarrow>
        Exec [''connect'', configuredConnect w, ''fs'', ''cp'', ''-f'', l, withPrefix (pathArgOf d)]
          \<in> set (events (snd (uploadReplacing t l d w)))
        \<and> Exec [''connect'', configuredConnect w, ''fs'', ''cp'', l, withPrefix (pathArgOf d)]
          \<in> set (events (snd (cpToDevice t l d w))))
   \<and> (\<forall>e w2. \<not> noPort (configuredConnect w)
        \<and> runMpremote t [''connect'', configuredConnect w, ''fs'', ''cp'', ''-f'', l, withPrefix (pathArgOf d)]
            True (snd (ensureParent t (configuredConnect w) (pathArgOf d) w)) = (Inl e, w2)
        \<and> \<not> isMissingDirError (toLowerCase (errorString e))
        \<longrightarrow> uploadReplacing t l d w = (Inl e, w2))
   \<and> (\<forall>e w2. \<not> noPort (configuredConnect w)
        \<and> runMpremote t [''connect'', configuredConnect w, ''fs'', ''cp'', l, withPrefix (pathArgOf d)]
            True (snd (ensureParent t (configuredConnect w) (pathArgOf d) w)) = (Inl e, w2)
        \<and> \<not> isMissingDirError (toLowerCase (errorString e))
        \<and> \<not> includesStr (toLowerCase (errorString e)) ''read-only file system''
        \<longrightarrow> cpToDevice t l d w = (Inl e, w2))"
proof -
  let ?c = "configuredConnect w"
  have shape: "(\<exists>new. events (snd (uploadReplacing t l d w)) = events w @ new
      \<and> (\<forall>e \<in> set new. forcedCopyOnly ?c l (withPrefix (pathArgOf d)) e))
   \<and> (\<exists>new. events (snd (cpToDevice t l d w)) = events w @ new
      \<and> (\<forall>e \<in> set new. plainCopyOnly ?c l (withPrefix (pathArgOf d)) e))"
  proof (cases "noPort ?c")
    case True
    then show ?thesis by (simp add: uploadReplacing_def cpToDevice_def reject_def)
  next
    case False
    from emitsD [OF uploadReplacingOn_emits [where c = ?c and l = l and d = d and t = t], where w = w]
      emitsD [OF cpToDeviceOn_emits [where c = ?c and l = l and d = d and t = t], where w = w] False
    show ?thesis
      by (simp add: uploadReplacing_def cpToDevice_def) blast
  qed
  have runs: "toolPath w \<noteq> None \<and> \<not> noPort ?c \<longrightarrow>
        Exec [''connect'', ?c, ''fs'', ''cp'', ''-f'', l, withPrefix (pathArgOf d)]
          \<in> set (events (snd (uploadReplacing t l d w)))
        \<and> Exec [''connect'', ?c, ''fs'', ''cp'', l, withPrefix (pathArgOf d)]
          \<in> set (events (snd (cpToDevice t l d w)))"
    using uploadReplacingOn_attempts [of w ?c l d t] cpToDeviceOn_attempts [of w ?c l d t]
    by (simp add: uploadReplacing_def cpToDevice_def)
  have rej1: "\<forall>e w2. \<not> noPort ?c
        \<and> runMpremote t [''connect'', ?c, ''fs'', ''cp'', ''-f'', l, withPrefix (pathArgOf d)]
            True (snd (ensureParent t ?c (pathArgOf d) w)) = (Inl e, w2)
        \<and> \<not> isMissingDirError (toLowerCase (errorString e))
        \<longrightarrow> uploadReplacing t l d w = (Inl e, w2)"
    using uploadReplacingOn_rejects [of t ?c l d w] by (simp add: uploadReplacing_def)
  have rej2: "\<forall>e w2. \<not> noPort ?c
        \<and> runMpremote t [''connect'', ?c, ''fs'', ''cp'', l, withPrefix (pathArgOf d)]
            True (snd (ensureParent t ?c (pathArgOf d) w)) = (Inl e, w2)
        \<and> \<not> isMissingDirError (toLowerCase (errorString e))
        \<and> \<not> includesStr (toLowerCase (errorString e)) ''read-only file system''
        \<longrightarrow> cpToDevice t l d w = (Inl e, w2)"
    using cpToDeviceOn_rejects [of t ?c l d w] by (simp add: cpToDevice_def)
  from shape runs rej1 rej2 show ?thesis by (intro conjI) blast+
qed

theorem upload_copy_variants_witness:
  "toolPath portWorld \<noteq> None \<and> \<not> noPort (configuredConnect portWorld)
   \<and> events (snd (uploadReplacing toolOk ''/ws/main.py'' ''/main.py'' portWorld))
     = [Exec [''connect'', ''/dev/ttyUSB0'', ''fs'', ''cp'', ''-f'', ''/ws/main.py'', '':/main.py'']]
   \<and> events (snd (cpToDevice toolOk ''/ws/main.py'' ''/main.py'' portWorld))
     = [Exec [''connect'', ''/dev/ttyUSB0'', ''fs'', ''cp'', ''/ws/main.py'', '':/main.py'']]
   \<and> \<not> isMissingDirError (toLowerCase (errorString ''mpremote: cp: OSError: [Errno 17] EEXIST: File exists''))
   \<and> \<not> includesStr (toLowerCase (errorString ''mpremote: cp: OSError: [Errno 17] EEXIST: File exists''))
          ''read-only file system''
   \<and> uploadReplacing toolRefusesExisting ''/ws/main.py'' ''/main.py'' portWorld
     = (Inl ''mpremote: cp: OSError: [Errno 17] EEXIST: File exists'',
        portWorld\<lparr>events := [Exec [''connect'', ''/dev/ttyUSB0'', ''fs'', ''cp'', ''-f'', ''/ws/main.py'', '':/main.py'']]\<rparr>)
   \<and> cpToDevice toolRefusesExisting ''/ws/main.py'' ''/main.py'' portWorld
     = (Inl ''mpremote: cp: OSError: [Errno 17] EEXIST: File exists'',
        portWorld\<lparr>events := [Exec [''connect'', ''/dev/ttyUSB0'', ''fs'', ''cp'', ''/ws/main.py'', '':/main.py'']]\<rparr>)"
proof -
  let ?msg = "''mpremote: cp: OSError: [Errno 17] EEXIST: File exists''"
  let ?wf = "portWorld\<lparr>events := [Exec [''connect'', ''/dev/ttyUSB0'', ''fs'', ''cp'', ''-f'', ''/ws/main.py'', '':/main.py'']]\<rparr>"
  let ?wp = "portWorld\<lparr>events := [Exec [''connect'', ''/dev/ttyUSB0'', ''fs'', ''cp'', ''/ws/main.py'', '':/main.py'']]\<rparr>"
  have p: "toolPath portWorld \<noteq> None \<and> \<not> noPort (configuredConnect portWorld)" by code_simp
  have u: "events (snd (uploadReplacing toolOk ''/ws/main.py'' ''/main.py'' portWorld))
     = [Exec [''connect'', ''/dev/ttyUSB0'', ''fs'', ''cp'', ''-f'', ''/ws/main.py'', '':/main.py'']]"
    by code_simp
  have c: "events (snd (cpToDevice toolOk ''/ws/main.py'' ''/main.py'' portWorld))
     = [Exec [''connect'', ''/dev/ttyUSB0'', ''fs'', ''cp'', ''/ws/main.py'', '':/main.py'']]"
    by code_simp
  have m: "\<not> isMissingDirError (toLowerCase (errorString ?msg))
      \<and> \<not> includesStr (toLowerCase (errorString ?msg)) ''read-only file system''"
    by code_simp
  have r1: "runMpremote toolRefusesExisting
              [''connect'', configuredConnect portWorld, ''fs'', ''cp'', ''-f'', ''/ws/main.py'',
               withPrefix (pathArgOf ''/main.py'')]
              True (snd (ensureParent toolRefusesExisting (configuredConnect portWorld) (pathArgOf ''/main.py'') portWorld))
            = (Inl ?msg, ?wf)"
    by code_simp
  have r2: "runMpremote toolRefusesExisting
              [''connect'', configuredConnect portWorld, ''fs'', ''cp'', ''/ws/main.py'',
               withPrefix (pathArgOf ''/main.py'')]
              True (snd (ensureParent toolRefusesExisting (configuredConnect portWorld) (pathArgOf ''/main.py'') portWorld))
            = (Inl ?msg, ?wp)"
    by code_simp
  from upload_copy_variants [of toolOk "''/ws/main.py''" "''/main.py''" portWorld]
    upload_copy_variants [of toolRefusesExisting "''/ws/main.py''" "''/main.py''" portWorld]
    p u c m r1 r2
  show ?thesis by blast
qed

text \<open>
  Claim C9 as stated (every upload path issues the copy in its force variant and does not
  fail with "file exists") fails for \<^verbatim>\<open>cpToDevice\<close>: the one command of a successful upload
  carries no \<open>-f\<close>, and with a tool that refuses to copy onto an existing file the upload
  is rejected with the tool's "File exists" message.
\<close>

theorem cpToDevice_not_forced_counterexample:
  "fst (cpToDevice toolOk ''/ws/main.py'' ''/main.py'' portWorld) = Inr ()
   \<and> events (snd (cpToDevice toolOk ''/ws/main.py'' ''/main.py'' portWorld))
     = [Exec [''connect'', ''/dev/ttyUSB0'', ''fs'', ''cp'', ''/ws/main.py'', '':/main.py'']]
   \<and> fst (cpToDevice toolRefusesExisting ''/ws/main.py'' ''/main.py'' portWorld)
     = Inl ''mpremote: cp: OSError: [Errno 17] EEXIST: File exists''"
  by code_simp


section \<open>The difference check: the end-to-end example and empty files\<close>

text \<open>
  The example of the specification: local \<open>main.py\<close> (10 bytes) and \<open>lib/a.py\<close> (5 bytes),
  on the board \<open>main.py\<close> (10), \<open>lib/a.py\<close> (7) and \<open>extra.py\<close> (3), remote root \<open>/\<close>.
\<close>

lemma checkDiffs_example:
  "checkDiffs ignoreNothing ''/'' [''main.py'', ''lib/a.py'']
      (sizesFrom [(''main.py'', 10), (''lib/a.py'', 5)]) [''lib'']
      [(''/main.py'', 10), (''/lib/a.py'', 7), (''/extra.py'', 3)] [''/lib'']
   = \<lparr>diffSet = [''/lib/a.py''], localOnlySet = [], localOnlyDirectories = [],
       boardOnlySet = [''/extra.py'']\<rparr>"
  by code_simp

text \<open>
  The local size that enters the comparison: the size itself unless it is \<open>0\<close>; an empty
  file is compared as \<open>-1\<close>, like a file that cannot be read.
\<close>

lemma localSizeOf_cases:
  "localStat rel = Some s \<Longrightarrow> s \<noteq> 0 \<Longrightarrow> localSizeOf localStat rel = s"
  "localStat rel = Some 0 \<Longrightarrow> localSizeOf localStat rel = - 1"
  "localStat rel = None \<Longrightarrow> localSizeOf localStat rel = - 1"
  by (simp_all add: localSizeOf_def)

text \<open>
  Claim C1 at a file of size \<open>0\<close> on both sides (an empty \<open>pkg/__init__.py\<close>): the sizes
  are equal and the file is classified as changed.
\<close>

theorem checkDiffs_empty_file_changed:
  "checkDiffs ignoreNothing ''/'' [''pkg/__init__.py'']
      (sizesFrom [(''pkg/__init__.py'', 0)]) [''pkg'']
      [(''/pkg/__init__.py'', 0)] [''/pkg'']
   = \<lparr>diffSet = [''/pkg/__init__.py''], localOnlySet = [], localOnlyDirectories = [],
       boardOnlySet = []\<rparr>"
  by code_simp


section \<open>The directory plan: depth and order\<close>

lemma splitOn_not_Nil: "splitOn sep s \<noteq> []"
  by (induction s) (auto split: list.splits)

lemma splitOn_append:
  "splitOn sep (a @ sep # b) = splitOn sep a @ splitOn sep b"
proof (induction a)
  case Nil
  then show ?case by simp
next
  case (Cons c a)
  obtain p ps where p: "splitOn sep a = p # ps"
    using splitOn_not_Nil [of sep a] by (cases "splitOn sep a") auto
  with Cons show ?case by (auto split: list.splits)
qed

lemma segments_append:
  "segments (a @ slash # b) = segments a @ segments b"
  by (simp add: segments_def splitOn_append)

lemma splitOn_no_sep: "sep \<notin> set s \<Longrightarrow> splitOn sep s = [s]"
  by (induction s) auto

lemma segments_component:
  "slash \<notin> set c \<Longrightarrow> c \<noteq> [] \<Longrightarrow> segments c = [c]"
  by (simp add: segments_def splitOn_no_sep)

lemma segments_snoc_slash: "segments (s @ [slash]) = segments s"
  using segments_append [of s "[]"] by (simp add: segments_def)

lemma segments_trailing_slashes:
  "\<forall>c \<in> set sl. c = slash \<Longrightarrow> segments (s @ sl) = segments s"
proof (induction sl rule: rev_induct)
  case Nil
  then show ?case by simp
next
  case (snoc x xs)
  then have "x = slash" by simp
  then have "segments (s @ xs @ [x]) = segments (s @ xs)"
    using segments_snoc_slash [of "s @ xs"] by simp
  with snoc show ?case by simp
qed

lemma depthOf_slashes: "depthOf ''/'' = 0" "depthOf ''//'' = 0"
  by (simp_all add: depthOf_def segments_def slash_def)

text \<open>The shape of a path whose directory is cut at a slash.\<close>

lemma dirname_shape:
  assumes "path \<noteq> []"
    and "dropWhile (\<lambda>c. c \<noteq> slash) (dropWhile (\<lambda>c. c = slash) (rev (tl path))) \<noteq> []"
  shows "\<exists>rest comp sl. path = hd path # rev rest @ slash # comp @ sl
           \<and> comp \<noteq> [] \<and> slash \<notin> set comp \<and> (\<forall>c \<in> set sl. c = slash)
           \<and> dropWhile (\<lambda>c. c \<noteq> slash) (dropWhile (\<lambda>c. c = slash) (rev (tl path))) = slash # rest"
proof -
  define r where "r = rev (tl path)"
  define r1 where "r1 = dropWhile (\<lambda>c. c = slash) r"
  define r2 where "r2 = dropWhile (\<lambda>c. c \<noteq> slash) r1"
  have r2ne: "r2 \<noteq> []" using assms(2) by (simp add: r2_def r1_def r_def)
  then have hd2: "hd r2 = slash"
    unfolding r2_def using hd_dropWhile [of "\<lambda>c. c \<noteq> slash" r1] by auto
  then obtain rest where rest: "r2 = slash # rest" using r2ne by (cases r2) auto
  define sl where "sl = takeWhile (\<lambda>c. c = slash) r"
  define comp where "comp = takeWhile (\<lambda>c. c \<noteq> slash) r1"
  have r_eq: "r = sl @ r1" by (simp add: sl_def r1_def)
  have r1_eq: "r1 = comp @ r2" by (simp add: comp_def r2_def)
  have r1ne: "r1 \<noteq> []" using r1_eq r2ne by auto
  have "hd r1 \<noteq> slash"
    unfolding r1_def using r1ne hd_dropWhile [of "\<lambda>c. c = slash" r] by (auto simp: r1_def)
  then have compne: "comp \<noteq> []"
    using r1ne by (cases r1) (auto simp: comp_def)
  have nos: "slash \<notin> set comp"
    unfolding comp_def by (auto dest: set_takeWhileD)
  have sls: "\<forall>c \<in> set sl. c = slash"
    unfolding sl_def by (auto dest: set_takeWhileD)
  have "tl path = rev r" by (simp add: r_def)
  also have "\<dots> = rev rest @ slash # rev comp @ rev sl"
    by (simp add: r_eq r1_eq rest)
  finally have "path = hd path # rev rest @ slash # rev comp @ rev sl"
    using assms(1) by (cases path) auto
  moreover have "rev comp \<noteq> []" "slash \<notin> set (rev comp)" "\<forall>c \<in> set (rev sl). c = slash"
    using compne nos sls by auto
  moreover have "dropWhile (\<lambda>c. c \<noteq> slash) (dropWhile (\<lambda>c. c = slash) (rev (tl path))) = slash # rest"
    using rest by (simp add: r2_def r1_def r_def)
  ultimately show ?thesis by blast
qed

lemma depthOf_dirname:
  assumes "posixDirname s \<noteq> ''/''" and "posixDirname s \<noteq> ''.''"
  shows "depthOf (posixDirname s) < depthOf s"
proof -
  have sne: "s \<noteq> []" using assms(2) by (auto simp: posixDirname_def)
  have r2ne: "dropWhile (\<lambda>c. c \<noteq> slash) (dropWhile (\<lambda>c. c = slash) (rev (tl s))) \<noteq> []"
  proof
    assume e: "dropWhile (\<lambda>c. c \<noteq> slash) (dropWhile (\<lambda>c. c = slash) (rev (tl s))) = []"
    have "posixDirname s = (if hd s = slash then ''/'' else ''.'')"
      unfolding posixDirname_def Let_def e using sne by simp
    with assms show False by (simp split: if_splits)
  qed
  from dirname_shape [OF sne r2ne] obtain rest comp sl where
    sh0: "s = hd s # rev rest @ slash # comp @ sl" and
    sh: "comp \<noteq> []" "slash \<notin> set comp" "\<forall>c \<in> set sl. c = slash"
        "dropWhile (\<lambda>c. c \<noteq> slash) (dropWhile (\<lambda>c. c = slash) (rev (tl s))) = slash # rest"
    by blast
  define h where "h = hd s"
  have "segments s = segments ((h # rev rest) @ slash # (comp @ sl))"
    using arg_cong [OF sh0, of segments] by (simp add: h_def)
  also have "\<dots> = segments (h # rev rest) @ segments (comp @ sl)"
    by (rule segments_append)
  also have "segments (comp @ sl) = [comp]"
    using segments_trailing_slashes [OF sh(3), of comp] segments_component [OF sh(2) sh(1)] by simp
  finally have d: "depthOf s = depthOf (h # rev rest) + 1"
    by (simp add: depthOf_def)
  have "depthOf (posixDirname s) = depthOf (h # rev rest)"
  proof (cases "h = slash \<and> rest = []")
    case True
    then have "posixDirname s = ''//''"
      unfolding posixDirname_def Let_def sh(4) using sne by (simp add: h_def)
    moreover have "h # rev rest = ''/''" using True by (simp add: slash_def)
    ultimately show ?thesis by (simp add: depthOf_slashes)
  next
    case False
    then have "posixDirname s = h # rev rest"
      unfolding posixDirname_def Let_def sh(4) using sne by (simp add: h_def)
    then show ?thesis by simp
  qed
  with d show ?thesis by simp
qed


lemma set_setAdd: "set (setAdd s x) = insert x (set s)"
  by (auto simp: setAdd_def)

lemma dirname_dot: "posixDirname ''.'' = ''.''"
  by (simp add: posixDirname_def slash_def)

lemma dirname_root: "posixDirname ''/'' = ''/''"
  by (simp add: posixDirname_def slash_def)

lemma addParents_dot_diverges:
  "rootPath \<noteq> ''.'' \<Longrightarrow> addParents n rootPath ''.'' dirs = None"
  by (induction n arbitrary: dirs) (simp_all add: dirname_dot)

text \<open>
  What the loop adds: only directories other than the root, \<open>/\<close> and \<open>.\<close>; what was there
  stays; and every planned directory's parent is the root, \<open>/\<close>, or planned as well.
\<close>

lemma addParents_result:
  assumes "addParents n rootPath cur dirs = Some ds"
    and "\<forall>d \<in> set dirs. posixDirname d = rootPath \<or> posixDirname d = ''/''
             \<or> posixDirname d \<in> set dirs \<or> posixDirname d = cur"
  shows "set dirs \<subseteq> set ds
    \<and> (\<forall>d \<in> set ds. d \<in> set dirs \<or> (d \<noteq> rootPath \<and> d \<noteq> ''/'' \<and> d \<noteq> ''.''))
    \<and> (\<forall>d \<in> set ds. posixDirname d = rootPath \<or> posixDirname d = ''/'' \<or> posixDirname d \<in> set ds)
    \<and> (cur \<noteq> rootPath \<and> cur \<noteq> ''/'' \<longrightarrow> cur \<in> set ds)"
  using assms
proof (induction n arbitrary: cur dirs)
  case 0
  then show ?case by (auto split: if_splits)
next
  case (Suc n)
  show ?case
  proof (cases "cur \<noteq> rootPath \<and> cur \<noteq> ''/''")
    case False
    with Suc.prems show ?thesis by auto
  next
    case True
    then have rec: "addParents n rootPath (posixDirname cur) (setAdd dirs cur) = Some ds"
      using Suc.prems(1) by simp
    have inv: "\<forall>d \<in> set (setAdd dirs cur). posixDirname d = rootPath \<or> posixDirname d = ''/''
             \<or> posixDirname d \<in> set (setAdd dirs cur) \<or> posixDirname d = posixDirname cur"
      using Suc.prems(2) by (auto simp: set_setAdd)
    note ih = Suc.IH [OF rec inv]
    have nd: "cur \<noteq> ''.''"
    proof
      assume c: "cur = ''.''"
      then have "rootPath \<noteq> ''.''" using True by simp
      from addParents_dot_diverges [OF this, of "Suc n" dirs] Suc.prems(1) c show False by simp
    qed
    from ih True nd show ?thesis by (auto simp: set_setAdd)
  qed
qed

lemma collectDirectories_result:
  assumes "collectDirectories fuel rootPath files dirs = Some ds" and "planClosed rootPath dirs"
  shows "set dirs \<subseteq> set ds \<and> planClosed rootPath ds
    \<and> (\<forall>f \<in> set files. let deviceDir = posixDirname (posixJoin rootPath f) in
           deviceDir \<noteq> ''.'' \<and> deviceDir \<noteq> rootPath \<and> deviceDir \<noteq> ''/'' \<longrightarrow> deviceDir \<in> set ds)"
  using assms
proof (induction files arbitrary: dirs)
  case Nil
  then show ?case by simp
next
  case (Cons f files)
  define deviceDir where "deviceDir = posixDirname (posixJoin rootPath f)"
  show ?case
  proof (cases "deviceDir \<noteq> ''.'' \<and> deviceDir \<noteq> rootPath")
    case False
    then have rec: "collectDirectories fuel rootPath files dirs = Some ds"
      using Cons.prems(1) by (auto simp: deviceDir_def Let_def)
    from Cons.IH [OF rec Cons.prems(2)] False show ?thesis
      by (auto simp: deviceDir_def Let_def)
  next
    case True
    then obtain mid where mid: "addParents fuel rootPath deviceDir dirs = Some mid"
      and rec: "collectDirectories fuel rootPath files mid = Some ds"
      using Cons.prems(1) by (auto simp: deviceDir_def Let_def split: option.splits)
    have inv: "\<forall>d \<in> set dirs. posixDirname d = rootPath \<or> posixDirname d = ''/''
             \<or> posixDirname d \<in> set dirs \<or> posixDirname d = deviceDir"
      using Cons.prems(2) by (auto simp: planClosed_def)
    from addParents_result [OF mid inv] Cons.prems(2)
    have m: "set dirs \<subseteq> set mid" "planClosed rootPath mid"
      "deviceDir \<noteq> rootPath \<and> deviceDir \<noteq> ''/'' \<longrightarrow> deviceDir \<in> set mid"
      by (auto simp: planClosed_def)
    from Cons.IH [OF rec m(2)] m(1,3) show ?thesis
      by (auto simp: deviceDir_def Let_def)
  qed
qed


lemma ancestorsOf_fixed:
  "posixDirname d = d \<Longrightarrow> set (ancestorsOf n d) \<subseteq> {d}"
  by (induction n) auto

lemma depthOf_ancestor:
  assumes "a \<in> set (ancestorsOf n d)" and "a \<noteq> ''/''" and "a \<noteq> ''.''"
  shows "depthOf a < depthOf d"
  using assms
proof (induction n arbitrary: d)
  case 0
  then show ?case by simp
next
  case (Suc n)
  have nofix: "posixDirname d \<noteq> ''/'' \<and> posixDirname d \<noteq> ''.''"
  proof (rule ccontr)
    assume "\<not> (posixDirname d \<noteq> ''/'' \<and> posixDirname d \<noteq> ''.'')"
    then have f: "posixDirname (posixDirname d) = posixDirname d" "posixDirname d = ''/'' \<or> posixDirname d = ''.''"
      using dirname_dot dirname_root by auto
    from Suc.prems(1) ancestorsOf_fixed [OF f(1), of n] have "a = posixDirname d" by auto
    with f(2) Suc.prems(2,3) show False by simp
  qed
  then have step: "depthOf (posixDirname d) < depthOf d"
    using depthOf_dirname by blast
  from Suc.prems(1) consider "a = posixDirname d" | "a \<in> set (ancestorsOf n (posixDirname d))"
    by auto
  then show ?case
  proof cases
    case 1
    with step show ?thesis by simp
  next
    case 2
    from Suc.IH [OF 2 Suc.prems(2,3)] step show ?thesis by simp
  qed
qed

lemma sorted_by_depth: "sorted (map depthOf (sort_key depthOf xs))"
  by (rule sorted_sort_key)

lemma sorted_depth_index:
  assumes "sorted (map depthOf plan)" and "i < length plan" and "j < length plan"
    and "depthOf (plan ! i) < depthOf (plan ! j)"
  shows "i < j"
proof (rule ccontr)
  assume "\<not> i < j"
  then have "j \<le> i" by simp
  then have "map depthOf plan ! j \<le> map depthOf plan ! i"
    using sorted_nth_mono [OF assms(1), of j i] assms(2) by simp
  with assms(2,3,4) show False by simp
qed

lemma planClosed_Nil: "planClosed rootPath []"
  by (simp add: planClosed_def)

lemma planClosed_sort:
  "planClosed rootPath ds \<Longrightarrow> planClosed rootPath (sort_key depthOf ds)"
  by (simp add: planClosed_def)


text \<open>Climbing from an absolute path stays absolute and gets shorter until \<open>/\<close> is reached.\<close>

lemma dirname_absolute:
  assumes "s \<noteq> []" and "hd s = slash"
  shows "posixDirname s \<noteq> [] \<and> hd (posixDirname s) = slash
         \<and> (s = ''/'' \<or> length (posixDirname s) < length s)"
proof (cases "dropWhile (\<lambda>c. c \<noteq> slash) (dropWhile (\<lambda>c. c = slash) (rev (tl s))) = []")
  case True
  have d: "posixDirname s = ''/''"
    unfolding posixDirname_def Let_def True using assms by simp
  have "s = ''/'' \<or> 1 < length s"
    using assms by (cases s) (auto simp: slash_def)
  with d show ?thesis by (auto simp: slash_def)
next
  case False
  from dirname_shape [OF assms(1) False] obtain rest comp sl where
    sh0: "s = hd s # rev rest @ slash # comp @ sl" and
    sh: "comp \<noteq> []"
        "dropWhile (\<lambda>c. c \<noteq> slash) (dropWhile (\<lambda>c. c = slash) (rev (tl s))) = slash # rest"
    by blast
  have len: "length s = length rest + length comp + length sl + 2"
    using arg_cong [OF sh0, of length] by simp
  have c: "0 < length comp" using sh(1) by simp
  show ?thesis
  proof (cases "rest = []")
    case True
    have "posixDirname s = ''//''"
      unfolding posixDirname_def Let_def sh(2) using assms True by simp
    with len c show ?thesis by (simp add: slash_def)
  next
    case False
    have "posixDirname s = hd s # rev rest"
      unfolding posixDirname_def Let_def sh(2) using assms False by simp
    with len c assms(2) show ?thesis by simp
  qed
qed

lemma addParents_terminates:
  assumes "cur \<noteq> []" and "hd cur = slash" and "length cur \<le> n"
  shows "addParents n rootPath cur dirs \<noteq> None"
  using assms
proof (induction n arbitrary: cur dirs)
  case 0
  then show ?case by simp
next
  case (Suc n)
  show ?case
  proof (cases "cur \<noteq> rootPath \<and> cur \<noteq> ''/''")
    case False
    then show ?thesis by auto
  next
    case True
    from dirname_absolute [OF Suc.prems(1,2)] True Suc.prems(3)
    have "posixDirname cur \<noteq> []" "hd (posixDirname cur) = slash" "length (posixDirname cur) \<le> n"
      by auto
    from Suc.IH [OF this] True show ?thesis by simp
  qed
qed

lemma posixNormalize_absolute:
  assumes "p \<noteq> []" and "hd p = slash"
  shows "posixNormalize p \<noteq> [] \<and> hd (posixNormalize p) = slash"
  using assms by (simp add: posixNormalize_def Let_def slash_def)

lemma posixJoin_absolute:
  assumes "rootPath \<noteq> []" and "hd rootPath = slash"
  shows "posixJoin rootPath f \<noteq> [] \<and> hd (posixJoin rootPath f) = slash"
proof -
  have "posixJoin rootPath f = posixNormalize (if f = [] then rootPath else rootPath @ ''/'' @ f)"
    using assms(1) by (simp add: posixJoin_def)
  moreover have "(if f = [] then rootPath else rootPath @ ''/'' @ f) \<noteq> []"
    "hd (if f = [] then rootPath else rootPath @ ''/'' @ f) = slash"
    using assms by auto
  ultimately show ?thesis using posixNormalize_absolute by presburger
qed

lemma collectDirectories_terminates:
  assumes "rootPath \<noteq> []" and "hd rootPath = slash"
    and "\<forall>f \<in> set files. length (posixDirname (posixJoin rootPath f)) \<le> fuel"
  shows "collectDirectories fuel rootPath files dirs \<noteq> None"
  using assms(3)
proof (induction files arbitrary: dirs)
  case Nil
  then show ?case by simp
next
  case (Cons f files)
  define deviceDir where "deviceDir = posixDirname (posixJoin rootPath f)"
  from posixJoin_absolute [OF assms(1,2), of f] dirname_absolute [of "posixJoin rootPath f"]
  have abs: "deviceDir \<noteq> []" "hd deviceDir = slash" by (auto simp: deviceDir_def)
  have len: "length deviceDir \<le> fuel" using Cons.prems by (simp add: deviceDir_def)
  from addParents_terminates [OF abs len, of rootPath dirs]
  obtain mid where mid: "addParents fuel rootPath deviceDir dirs = Some mid" by auto
  from Cons.IH [of mid] Cons.IH [of dirs] Cons.prems mid show ?case
    by (simp add: deviceDir_def [symmetric] Let_def)
qed


text \<open>What the climbs add, exactly.\<close>

lemma climbs_0: "climbs rootPath cur 0 \<longleftrightarrow> cur \<noteq> rootPath \<and> cur \<noteq> ''/''"
  by (simp add: climbs_def)

lemma climbs_Suc:
  "climbs rootPath cur (Suc k) \<longleftrightarrow> cur \<noteq> rootPath \<and> cur \<noteq> ''/'' \<and> climbs rootPath (posixDirname cur) k"
proof -
  have a: "climbs rootPath c n \<longleftrightarrow> (\<forall>j\<le>n. (posixDirname ^^ j) c \<noteq> rootPath \<and> (posixDirname ^^ j) c \<noteq> ''/'')"
    for c n
    by (simp add: climbs_def Ball_def less_Suc_eq_le del: upt_Suc)
  show ?thesis
  proof
    assume l: "climbs rootPath cur (Suc k)"
    then have all: "\<And>j. j \<le> Suc k \<Longrightarrow> (posixDirname ^^ j) cur \<noteq> rootPath \<and> (posixDirname ^^ j) cur \<noteq> ''/''"
      using a by blast
    from all [of 0] have c0: "cur \<noteq> rootPath \<and> cur \<noteq> ''/''" by simp
    have "(posixDirname ^^ j) (posixDirname cur) \<noteq> rootPath \<and> (posixDirname ^^ j) (posixDirname cur) \<noteq> ''/''"
      if "j \<le> k" for j
      using all [of "Suc j"] that by (simp add: funpow_swap1)
    with c0 show "cur \<noteq> rootPath \<and> cur \<noteq> ''/'' \<and> climbs rootPath (posixDirname cur) k"
      using a by blast
  next
    assume r: "cur \<noteq> rootPath \<and> cur \<noteq> ''/'' \<and> climbs rootPath (posixDirname cur) k"
    then have all: "\<And>j. j \<le> k \<Longrightarrow> (posixDirname ^^ j) (posixDirname cur) \<noteq> rootPath
        \<and> (posixDirname ^^ j) (posixDirname cur) \<noteq> ''/''"
      using a by blast
    have "(posixDirname ^^ j) cur \<noteq> rootPath \<and> (posixDirname ^^ j) cur \<noteq> ''/''" if "j \<le> Suc k" for j
    proof (cases j)
      case 0
      with r show ?thesis by simp
    next
      case (Suc i)
      with that all [of i] show ?thesis by (simp add: funpow_swap1)
    qed
    then show "climbs rootPath cur (Suc k)" using a by blast
  qed
qed

lemma addParents_exact:
  assumes "addParents n rootPath cur dirs = Some ds"
  shows "set ds = set dirs \<union> {d. \<exists>k. climbs rootPath cur k \<and> d = (posixDirname ^^ k) cur}"
  using assms
proof (induction n arbitrary: cur dirs)
  case 0
  then have stop: "\<not> (cur \<noteq> rootPath \<and> cur \<noteq> ''/'')" and ds: "ds = dirs"
    by (auto split: if_splits)
  have "\<not> climbs rootPath cur k" for k
    using stop by (cases k) (auto simp: climbs_0 climbs_Suc)
  with ds show ?case by auto
next
  case (Suc n)
  show ?case
  proof (cases "cur \<noteq> rootPath \<and> cur \<noteq> ''/''")
    case False
    then have ds: "ds = dirs" using Suc.prems by auto
    have "\<not> climbs rootPath cur k" for k
      using False by (cases k) (auto simp: climbs_0 climbs_Suc)
    with ds show ?thesis by auto
  next
    case True
    then have rec: "addParents n rootPath (posixDirname cur) (setAdd dirs cur) = Some ds"
      using Suc.prems by simp
    from Suc.IH [OF rec]
    have ih: "set ds = insert cur (set dirs)
        \<union> {d. \<exists>k. climbs rootPath (posixDirname cur) k \<and> d = (posixDirname ^^ k) (posixDirname cur)}"
      by (simp add: set_setAdd)
    have "{d. \<exists>k. climbs rootPath cur k \<and> d = (posixDirname ^^ k) cur}
        = insert cur {d. \<exists>k. climbs rootPath (posixDirname cur) k \<and> d = (posixDirname ^^ k) (posixDirname cur)}"
      (is "?L = insert cur ?R")
    proof (intro set_eqI iffI)
      fix d assume "d \<in> ?L"
      then obtain k where k: "climbs rootPath cur k" "d = (posixDirname ^^ k) cur" by blast
      show "d \<in> insert cur ?R"
      proof (cases k)
        case 0
        with k show ?thesis by simp
      next
        case (Suc i)
        with k have "climbs rootPath (posixDirname cur) i" "d = (posixDirname ^^ i) (posixDirname cur)"
          by (simp_all add: climbs_Suc funpow_swap1)
        then show ?thesis by blast
      qed
    next
      fix d assume "d \<in> insert cur ?R"
      then consider "d = cur" | i where "climbs rootPath (posixDirname cur) i" "d = (posixDirname ^^ i) (posixDirname cur)"
        by blast
      then show "d \<in> ?L"
      proof cases
        case 1
        have "climbs rootPath cur 0" "d = (posixDirname ^^ 0) cur" using True 1 by (simp_all add: climbs_0)
        then show ?thesis by blast
      next
        case 2
        then have "climbs rootPath cur (Suc i)" "d = (posixDirname ^^ Suc i) cur"
          using True by (simp_all add: climbs_Suc funpow_swap1)
        then show ?thesis by blast
      qed
    qed
    with ih show ?thesis by auto
  qed
qed

lemma collectDirectories_exact:
  assumes "collectDirectories fuel rootPath files dirs = Some ds"
  shows "set ds = set dirs \<union> {d. \<exists>f \<in> set files. \<exists>k. posixDirname (posixJoin rootPath f) \<noteq> ''.''
            \<and> climbs rootPath (posixDirname (posixJoin rootPath f)) k
            \<and> d = (posixDirname ^^ k) (posixDirname (posixJoin rootPath f))}"
  using assms
proof (induction files arbitrary: dirs)
  case Nil
  then show ?case by simp
next
  case (Cons f files)
  define deviceDir where "deviceDir = posixDirname (posixJoin rootPath f)"
  define C where "C = {d. \<exists>k. deviceDir \<noteq> ''.'' \<and> climbs rootPath deviceDir k \<and> d = (posixDirname ^^ k) deviceDir}"
  define R where "R = {d. \<exists>f \<in> set files. \<exists>k. posixDirname (posixJoin rootPath f) \<noteq> ''.''
            \<and> climbs rootPath (posixDirname (posixJoin rootPath f)) k
            \<and> d = (posixDirname ^^ k) (posixDirname (posixJoin rootPath f))}"
  have split: "{d. \<exists>g \<in> set (f # files). \<exists>k. posixDirname (posixJoin rootPath g) \<noteq> ''.''
            \<and> climbs rootPath (posixDirname (posixJoin rootPath g)) k
            \<and> d = (posixDirname ^^ k) (posixDirname (posixJoin rootPath g))} = C \<union> R"
    by (auto simp: C_def R_def deviceDir_def)
  have "set ds = set dirs \<union> (C \<union> R)"
  proof (cases "deviceDir \<noteq> ''.'' \<and> deviceDir \<noteq> rootPath")
    case False
    then have rec: "collectDirectories fuel rootPath files dirs = Some ds"
      using Cons.prems by (auto simp: deviceDir_def Let_def)
    have "\<not> climbs rootPath deviceDir k" if "deviceDir = rootPath" for k
      using that by (cases k) (auto simp: climbs_0 climbs_Suc)
    with False have "C = {}" by (auto simp: C_def)
    with Cons.IH [OF rec] show ?thesis by (simp add: R_def)
  next
    case True
    then obtain mid where mid: "addParents fuel rootPath deviceDir dirs = Some mid"
      and rec: "collectDirectories fuel rootPath files mid = Some ds"
      using Cons.prems by (auto simp: deviceDir_def Let_def split: option.splits)
    from addParents_exact [OF mid] True have "set mid = set dirs \<union> C" by (auto simp: C_def)
    with Cons.IH [OF rec] show ?thesis by (auto simp: R_def)
  qed
  with split show ?case by simp
qed

text \<open>
  Claim C3, amended. For an absolute remote root the planning loop ends (fuel as long as
  the longest destination directory is enough). The plan it returns is ordered by depth
  ascending, and a planned directory that lies above another planned directory comes
  before it. The plan holds exactly the directories the climbs pass: for each file the
  directory of its destination and that directory's parents, as long as neither the root
  as it is configured nor \<open>/\<close> is met. So the configured root and \<open>/\<close> are never planned:
  under the root \<open>/app\<close> the plan stops below \<open>/app\<close>, while under the root \<open>/app/\<close>, which
  no parent equals, the climb passes \<open>/app\<close> and plans it.
\<close>

theorem directory_plan_below_root_in_depth_order:
  "(rootPath \<noteq> [] \<and> hd rootPath = slash
      \<and> (\<forall>f \<in> set files. length (posixDirname (posixJoin rootPath f)) \<le> fuel)
     \<longrightarrow> sortedDirectories fuel rootPath files \<noteq> None)
   \<and> (\<forall>plan. sortedDirectories fuel rootPath files = Some plan \<longrightarrow>
         sorted (map depthOf plan)
         \<and> (\<forall>i<length plan. \<forall>j<length plan. \<forall>n.
               plan ! i \<in> set (ancestorsOf n (plan ! j)) \<longrightarrow> i < j)
         \<and> (\<forall>d. d \<in> set plan \<longleftrightarrow>
               (\<exists>f \<in> set files. \<exists>k. posixDirname (posixJoin rootPath f) \<noteq> ''.''
                   \<and> climbs rootPath (posixDirname (posixJoin rootPath f)) k
                   \<and> d = (posixDirname ^^ k) (posixDirname (posixJoin rootPath f))))
         \<and> (\<forall>f \<in> set files. let deviceDir = posixDirname (posixJoin rootPath f) in
               deviceDir \<noteq> ''.'' \<and> deviceDir \<noteq> rootPath \<and> deviceDir \<noteq> ''/'' \<longrightarrow> deviceDir \<in> set plan)
         \<and> (\<forall>d \<in> set plan. posixDirname d = rootPath \<or> posixDirname d = ''/''
               \<or> posixDirname d \<in> set plan)
         \<and> rootPath \<notin> set plan \<and> ''/'' \<notin> set plan)"
proof -
  have terminates: "rootPath \<noteq> [] \<and> hd rootPath = slash
      \<and> (\<forall>f \<in> set files. length (posixDirname (posixJoin rootPath f)) \<le> fuel)
     \<longrightarrow> sortedDirectories fuel rootPath files \<noteq> None"
    using collectDirectories_terminates [of rootPath files fuel "[]"]
    by (simp add: sortedDirectories_def)
  have ordered: "sorted (map depthOf plan)
         \<and> (\<forall>i<length plan. \<forall>j<length plan. \<forall>n.
               plan ! i \<in> set (ancestorsOf n (plan ! j)) \<longrightarrow> i < j)
         \<and> (\<forall>d. d \<in> set plan \<longleftrightarrow>
               (\<exists>f \<in> set files. \<exists>k. posixDirname (posixJoin rootPath f) \<noteq> ''.''
                   \<and> climbs rootPath (posixDirname (posixJoin rootPath f)) k
                   \<and> d = (posixDirname ^^ k) (posixDirname (posixJoin rootPath f))))
         \<and> (\<forall>f \<in> set files. let deviceDir = posixDirname (posixJoin rootPath f) in
               deviceDir \<noteq> ''.'' \<and> deviceDir \<noteq> rootPath \<and> deviceDir \<noteq> ''/'' \<longrightarrow> deviceDir \<in> set plan)
         \<and> (\<forall>d \<in> set plan. posixDirname d = rootPath \<or> posixDirname d = ''/''
               \<or> posixDirname d \<in> set plan)
         \<and> rootPath \<notin> set plan \<and> ''/'' \<notin> set plan"
    if p: "sortedDirectories fuel rootPath files = Some plan" for plan
  proof -
    from p obtain ds where ds: "collectDirectories fuel rootPath files [] = Some ds"
      and plan: "plan = sort_key depthOf ds"
      by (auto simp: sortedDirectories_def)
    from collectDirectories_result [OF ds planClosed_Nil]
    have closed: "planClosed rootPath ds"
      and cover: "\<forall>f \<in> set files. let deviceDir = posixDirname (posixJoin rootPath f) in
           deviceDir \<noteq> ''.'' \<and> deviceDir \<noteq> rootPath \<and> deviceDir \<noteq> ''/'' \<longrightarrow> deviceDir \<in> set ds"
      by auto
    have setp: "set plan = set ds" by (simp add: plan)
    have f1: "sorted (map depthOf plan)"
      unfolding plan by (rule sorted_by_depth)
    have f2: "\<forall>i<length plan. \<forall>j<length plan. \<forall>n.
               plan ! i \<in> set (ancestorsOf n (plan ! j)) \<longrightarrow> i < j"
    proof (intro allI impI)
      fix i j n
      assume i: "i < length plan" and j: "j < length plan"
        and a: "plan ! i \<in> set (ancestorsOf n (plan ! j))"
      have "plan ! i \<in> set ds" using i setp nth_mem by blast
      then have "plan ! i \<noteq> ''/''" "plan ! i \<noteq> ''.''"
        using closed by (auto simp: planClosed_def)
      from depthOf_ancestor [OF a this] sorted_depth_index [OF f1 i j]
      show "i < j" by blast
    qed
    have f3: "\<forall>f \<in> set files. let deviceDir = posixDirname (posixJoin rootPath f) in
               deviceDir \<noteq> ''.'' \<and> deviceDir \<noteq> rootPath \<and> deviceDir \<noteq> ''/'' \<longrightarrow> deviceDir \<in> set plan"
      using cover setp by simp
    have f4: "\<forall>d \<in> set plan. posixDirname d = rootPath \<or> posixDirname d = ''/''
               \<or> posixDirname d \<in> set plan"
      using closed setp by (simp add: planClosed_def)
    have f5: "rootPath \<notin> set plan" and f6: "''/'' \<notin> set plan"
      using closed setp by (auto simp: planClosed_def)
    have f7: "\<forall>d. d \<in> set plan \<longleftrightarrow>
               (\<exists>f \<in> set files. \<exists>k. posixDirname (posixJoin rootPath f) \<noteq> ''.''
                   \<and> climbs rootPath (posixDirname (posixJoin rootPath f)) k
                   \<and> d = (posixDirname ^^ k) (posixDirname (posixJoin rootPath f)))"
      using collectDirectories_exact [OF ds] setp by simp
    from f1 f2 f7 f3 f4 f5 f6 show ?thesis by (intro conjI)
  qed
  have "\<forall>plan. sortedDirectories fuel rootPath files = Some plan \<longrightarrow>
         sorted (map depthOf plan)
         \<and> (\<forall>i<length plan. \<forall>j<length plan. \<forall>n.
               plan ! i \<in> set (ancestorsOf n (plan ! j)) \<longrightarrow> i < j)
         \<and> (\<forall>d. d \<in> set plan \<longleftrightarrow>
               (\<exists>f \<in> set files. \<exists>k. posixDirname (posixJoin rootPath f) \<noteq> ''.''
                   \<and> climbs rootPath (posixDirname (posixJoin rootPath f)) k
                   \<and> d = (posixDirname ^^ k) (posixDirname (posixJoin rootPath f))))
         \<and> (\<forall>f \<in> set files. let deviceDir = posixDirname (posixJoin rootPath f) in
               deviceDir \<noteq> ''.'' \<and> deviceDir \<noteq> rootPath \<and> deviceDir \<noteq> ''/'' \<longrightarrow> deviceDir \<in> set plan)
         \<and> (\<forall>d \<in> set plan. posixDirname d = rootPath \<or> posixDirname d = ''/''
               \<or> posixDirname d \<in> set plan)
         \<and> rootPath \<notin> set plan \<and> ''/'' \<notin> set plan"
  proof (intro allI impI)
    fix plan
    assume "sortedDirectories fuel rootPath files = Some plan"
    then show "sorted (map depthOf plan)
         \<and> (\<forall>i<length plan. \<forall>j<length plan. \<forall>n.
               plan ! i \<in> set (ancestorsOf n (plan ! j)) \<longrightarrow> i < j)
         \<and> (\<forall>d. d \<in> set plan \<longleftrightarrow>
               (\<exists>f \<in> set files. \<exists>k. posixDirname (posixJoin rootPath f) \<noteq> ''.''
                   \<and> climbs rootPath (posixDirname (posixJoin rootPath f)) k
                   \<and> d = (posixDirname ^^ k) (posixDirname (posixJoin rootPath f))))
         \<and> (\<forall>f \<in> set files. let deviceDir = posixDirname (posixJoin rootPath f) in
               deviceDir \<noteq> ''.'' \<and> deviceDir \<noteq> rootPath \<and> deviceDir \<noteq> ''/'' \<longrightarrow> deviceDir \<in> set plan)
         \<and> (\<forall>d \<in> set plan. posixDirname d = rootPath \<or> posixDirname d = ''/''
               \<or> posixDirname d \<in> set plan)
         \<and> rootPath \<notin> set plan \<and> ''/'' \<notin> set plan"
      by (rule ordered)
  qed
  with terminates show ?thesis by (rule conjI)
qed

theorem directory_plan_below_root_in_depth_order_witness:
  "''/'' \<noteq> [] \<and> hd ''/'' = slash
   \<and> length (posixDirname (posixJoin ''/'' ''a/b/c/file.py'')) \<le> 10
   \<and> length (posixDirname (posixJoin ''/'' ''a/file2.py'')) \<le> 10
   \<and> sortedDirectories 10 ''/'' [''a/b/c/file.py'', ''a/file2.py''] = Some [''/a'', ''/a/b'', ''/a/b/c'']
   \<and> [''/a'', ''/a/b'', ''/a/b/c''] ! 0 \<in> set (ancestorsOf 2 ([''/a'', ''/a/b'', ''/a/b/c''] ! 2))
   \<and> posixDirname (posixJoin ''/'' ''a/b/c/file.py'') = ''/a/b/c''
   \<and> climbs ''/'' ''/a/b/c'' 2 \<and> (posixDirname ^^ 2) ''/a/b/c'' = ''/a'' \<and> \<not> climbs ''/'' ''/a/b/c'' 3
   \<and> posixDirname ''/a/b/c'' = ''/a/b''
   \<and> ''/app/'' \<noteq> [] \<and> hd ''/app/'' = slash
   \<and> length (posixDirname (posixJoin ''/app/'' ''x/y.py'')) \<le> 10
   \<and> sortedDirectories 10 ''/app/'' [''x/y.py''] = Some [''/app'', ''/app/x'']
   \<and> posixDirname (posixJoin ''/app/'' ''x/y.py'') = ''/app/x''
   \<and> climbs ''/app/'' ''/app/x'' 1 \<and> (posixDirname ^^ 1) ''/app/x'' = ''/app''
   \<and> \<not> climbs ''/app/'' ''/app/x'' 2"
proof -
  have 1: "''/'' \<noteq> [] \<and> hd ''/'' = slash" by code_simp
  have 2: "length (posixDirname (posixJoin ''/'' ''a/b/c/file.py'')) \<le> 10
      \<and> length (posixDirname (posixJoin ''/'' ''a/file2.py'')) \<le> 10"
    by code_simp
  have 3: "sortedDirectories 10 ''/'' [''a/b/c/file.py'', ''a/file2.py''] = Some [''/a'', ''/a/b'', ''/a/b/c'']"
    by code_simp
  have 4: "[''/a'', ''/a/b'', ''/a/b/c''] ! 0 \<in> set (ancestorsOf 2 ([''/a'', ''/a/b'', ''/a/b/c''] ! 2))"
    by code_simp
  have 5: "posixDirname (posixJoin ''/'' ''a/b/c/file.py'') = ''/a/b/c''" by code_simp
  have 6: "posixDirname ''/a/b/c'' = ''/a/b''" by code_simp
  have 7: "climbs ''/'' ''/a/b/c'' 2 \<and> (posixDirname ^^ 2) ''/a/b/c'' = ''/a'' \<and> \<not> climbs ''/'' ''/a/b/c'' 3"
    by code_simp
  have 8: "''/app/'' \<noteq> [] \<and> hd ''/app/'' = slash
      \<and> length (posixDirname (posixJoin ''/app/'' ''x/y.py'')) \<le> 10"
    by code_simp
  have 9: "sortedDirectories 10 ''/app/'' [''x/y.py''] = Some [''/app'', ''/app/x'']" by code_simp
  have 10: "posixDirname (posixJoin ''/app/'' ''x/y.py'') = ''/app/x''
      \<and> climbs ''/app/'' ''/app/x'' 1 \<and> (posixDirname ^^ 1) ''/app/x'' = ''/app''
      \<and> \<not> climbs ''/app/'' ''/app/x'' 2"
    by code_simp
  from directory_plan_below_root_in_depth_order
         [of "''/''" "[''a/b/c/file.py'', ''a/file2.py'']" 10]
       directory_plan_below_root_in_depth_order [of "''/app/''" "[''x/y.py'']" 10]
       1 2 3 4 5 6 7 8 9 10
  show ?thesis by blast
qed

text \<open>
  Claim C3 as stated (the plan contains every ancestor directory of the destination paths)
  fails for a remote root other than \<open>/\<close>: for the file \<open>x/y.py\<close> under the root \<open>/app\<close> the
  destination \<open>/app/x/y.py\<close> lies below \<open>/app/x\<close> and \<open>/app\<close>, and the plan is \<open>/app/x\<close>
  alone. Under the root written \<open>/app/\<close> the same file has the plan \<open>/app\<close>, \<open>/app/x\<close>.
\<close>

theorem directory_plan_omits_root_counterexample:
  "posixJoin ''/app'' ''x/y.py'' = ''/app/x/y.py''
   \<and> ancestorsOf 2 ''/app/x/y.py'' = [''/app/x'', ''/app'']
   \<and> sortedDirectories 10 ''/app'' [''x/y.py''] = Some [''/app/x'']
   \<and> sortedDirectories 10 ''/app/'' [''x/y.py''] = Some [''/app'', ''/app/x'']"
  by code_simp


section \<open>The baseline upload: partial failure\<close>

text \<open>The directory phase leaves the configuration alone and can only fail in one way.\<close>

lemma emits_mkdir: "emits (\<lambda>e. True) (mkdir t p)"
proof (rule emitsI)
  fix w
  let ?m = "tryCatch
             (andThen (runMpremote t [''connect'', configuredConnect w, ''fs'', ''mkdir'', pathArgOf p] True)
                (\<lambda>_. clearFileTreeCache))
             (\<lambda>error. reject error)"
  have "emits (\<lambda>e. True) ?m"
    by (intro emits_tryCatch emits_andThen emits_runMpremote emits_clearFileTreeCache emits_reject)
       simp_all
  from emitsD [OF this, of w]
  show "\<exists>new. events (snd (mkdir t p w)) = events w @ new \<and> (\<forall>e \<in> set new. True)
            \<and> connectCfg (snd (mkdir t p w)) = connectCfg w \<and> toolPath (snd (mkdir t p w)) = toolPath w"
    by (cases "noPort (configuredConnect w)") (simp_all add: mkdir_def Let_def reject_def)
qed

lemma fileExists_cases:
  "fileExists t p w =
     (if noPort (configuredConnect w) then (Inl selectPortMsg, w)
      else (Inr (\<not> isl (fst (runMpremote t [''connect'', configuredConnect w, ''fs'', ''stat'', pathArgOf p] True w))),
            snd (runMpremote t [''connect'', configuredConnect w, ''fs'', ''stat'', pathArgOf p] True w)))"
  by (auto simp: fileExists_def Let_def reject_def tryCatch_def andThen_def resolve_def
      split: prod.splits sum.splits)

lemma emits_fileExists: "emits (\<lambda>e. True) (fileExists t p)"
proof (rule emitsI)
  fix w
  have "emits (\<lambda>e. True) (runMpremote t [''connect'', configuredConnect w, ''fs'', ''stat'', pathArgOf p] True)"
    by (rule emits_runMpremote) simp_all
  from emitsD [OF this, of w]
  show "\<exists>new. events (snd (fileExists t p w)) = events w @ new \<and> (\<forall>e \<in> set new. True)
            \<and> connectCfg (snd (fileExists t p w)) = connectCfg w
            \<and> toolPath (snd (fileExists t p w)) = toolPath w"
    by (simp add: fileExists_cases)
qed

lemma emits_createDirectory: "emits (\<lambda>e. True) (createDirectory t d n)"
proof (induction n)
  case 0
  show ?case by (simp add: emits_resolve)
next
  case (Suc n)
  show ?case
    unfolding createDirectory.simps
    by (intro emits_tryCatch emits_andThen emits_if emits_resolve emits_mkdir emits_delay Suc) simp
qed

lemma emits_missingDirectories: "emits (\<lambda>e. True) (missingDirectories t ds)"
proof (induction ds)
  case Nil
  show ?case by (simp add: emits_resolve)
next
  case (Cons d ds)
  show ?case
    unfolding missingDirectories.simps
    by (intro emits_andThen emits_tryCatch emits_fileExists emits_resolve Cons)
qed

lemma emits_prepareDirectories: "emits (\<lambda>e. True) (prepareDirectories t plan)"
  unfolding prepareDirectories_def
  by (intro emits_andThen emits_forEach emits_if emits_resolve emits_reject emits_ignoreErrors
      emits_createDirectory emits_missingDirectories emits_mkdir)

lemma createDirectory_resolves: "\<exists>b w1. createDirectory t d n w = (Inr b, w1)"
proof (induction n arbitrary: w)
  case 0
  show ?case by (auto simp: resolve_def)
next
  case (Suc n)
  obtain r w1 where m: "mkdir t d w = (r, w1)" by (cases "mkdir t d w")
  show ?case
  proof (cases r)
    case (Inr u)
    with m show ?thesis by (auto simp: tryCatch_def andThen_def resolve_def)
  next
    case (Inl e)
    from Suc [of "w1\<lparr>events := events w1 @ [Delay 100]\<rparr>"] m Inl show ?thesis
      by (auto simp: tryCatch_def andThen_def resolve_def)
  qed
qed

lemma forEach_resolves:
  assumes "\<And>x w. \<exists>w1. f x w = (Inr (), w1)"
  shows "\<exists>w1. forEach xs f w = (Inr (), w1)"
proof (induction xs arbitrary: w)
  case Nil
  show ?case by (simp add: resolve_def)
next
  case (Cons x xs)
  from assms [of x w] obtain w1 where "f x w = (Inr (), w1)" by blast
  with Cons [of w1] show ?case by (simp add: andThen_def)
qed

lemma missingDirectories_resolves: "\<exists>ms w1. missingDirectories t ds w = (Inr ms, w1)"
proof (induction ds arbitrary: w)
  case Nil
  show ?case by (simp add: resolve_def)
next
  case (Cons d ds)
  have "\<exists>b w1. tryCatch (fileExists t d) (\<lambda>error. resolve False) w = (Inr b, w1)"
  proof (cases "fileExists t d w")
    case (Pair r v)
    then show ?thesis by (cases r) (auto simp: tryCatch_def resolve_def)
  qed
  then obtain b w1 where f: "tryCatch (fileExists t d) (\<lambda>error. resolve False) w = (Inr b, w1)"
    by blast
  from Cons [of w1] obtain ms w2 where "missingDirectories t ds w1 = (Inr ms, w2)" by blast
  with f show ?case by (simp add: andThen_def resolve_def)
qed

lemma prepareDirectories_rejection:
  assumes "prepareDirectories t plan w = (Inl e, w1)"
  shows "startsWith e ''Missing directories after retry: ''"
proof -
  have cr: "\<exists>w1. andThen (createDirectory t d 3) (\<lambda>created. resolve ()) v = (Inr (), w1)" for d v
    using createDirectory_resolves [of t d 3 v] by (auto simp: andThen_def resolve_def)
  from forEach_resolves [of "\<lambda>deviceDir. andThen (createDirectory t deviceDir 3) (\<lambda>created. resolve ())", OF cr]
  obtain wa where a: "forEach plan (\<lambda>deviceDir. andThen (createDirectory t deviceDir 3) (\<lambda>created. resolve ())) w
      = (Inr (), wa)" by blast
  from missingDirectories_resolves obtain vf wb where b: "missingDirectories t plan wa = (Inr vf, wb)"
    by blast
  have ig: "\<exists>w1. ignoreErrors (mkdir t d) v = (Inr (), w1)" for d v
    by (cases "mkdir t d v") (auto simp: ignoreErrors_def tryCatch_def andThen_def resolve_def split: sum.splits)
  from forEach_resolves [of "\<lambda>missingDir. ignoreErrors (mkdir t missingDir)", OF ig]
  obtain wc where c: "forEach vf (\<lambda>missingDir. ignoreErrors (mkdir t missingDir)) wb = (Inr (), wc)"
    by blast
  from missingDirectories_resolves obtain sm wd where d: "missingDirectories t vf wc = (Inr sm, wd)"
    by blast
  from assms a b c d have "e = ''Missing directories after retry: '' @ joinWith '', '' sm"
    by (simp add: prepareDirectories_def andThen_def resolve_def reject_def split: if_splits)
  then show ?thesis by (simp add: startsWith_def)
qed

text \<open>The upload loop: its session does not depend on the counters it starts from.\<close>

lemma uploadEach_session:
  "snd (uploadEach t lp acc root files counts w) = snd (uploadEach t lp acc root files counts' w)"
proof (induction files arbitrary: counts counts' w)
  case Nil
  show ?case by simp
next
  case (Cons r files)
  show ?case
  proof (cases "acc (lp r)")
    case False
    with Cons [of "(fst counts, snd counts + 1)" w "(fst counts', snd counts' + 1)"] show ?thesis by simp
  next
    case True
    obtain res w1 where c: "cpToDevice t (lp r) (posixJoin root r) w = (res, w1)"
      by (cases "cpToDevice t (lp r) (posixJoin root r) w")
    show ?thesis
    proof (cases res)
      case (Inl e)
      with True c Cons [of "(fst counts, snd counts + 1)" w1 "(fst counts', snd counts' + 1)"]
      show ?thesis by simp
    next
      case (Inr u)
      with True c Cons [of "(fst counts + 1, snd counts)" w1 "(fst counts' + 1, snd counts')"]
      show ?thesis by simp
    qed
  qed
qed

lemma uploadEach_counts:
  "fst (fst (uploadEach t lp acc root files counts w)) + snd (fst (uploadEach t lp acc root files counts w))
     = fst counts + snd counts + length files
   \<and> snd counts + length (filter (\<lambda>r. \<not> acc (lp r)) files)
       \<le> snd (fst (uploadEach t lp acc root files counts w))"
proof (induction files arbitrary: counts w)
  case Nil
  then show ?case by simp
next
  case (Cons r files)
  show ?case
  proof (cases "acc (lp r)")
    case False
    with Cons [of "(fst counts, snd counts + 1)" w] show ?thesis by simp
  next
    case True
    obtain res w1 where c: "cpToDevice t (lp r) (posixJoin root r) w = (res, w1)"
      by (cases "cpToDevice t (lp r) (posixJoin root r) w")
    show ?thesis
    proof (cases res)
      case (Inl e)
      with True c Cons [of "(fst counts, snd counts + 1)" w1] show ?thesis by simp
    next
      case (Inr u)
      with True c Cons [of "(fst counts + 1, snd counts)" w1] show ?thesis by simp
    qed
  qed
qed

text \<open>Each file moves exactly one counter: the failure counter if and only if it fails.\<close>

lemma fileFails_0:
  "fileFails t lp acc root (r # files) w 0
     \<longleftrightarrow> \<not> acc (lp r) \<or> isl (fst (cpToDevice t (lp r) (posixJoin root r) w))"
  by (simp add: fileFails_def sessionAt_def)

lemma fileFails_Suc:
  "fileFails t lp acc root (r # files) w (Suc i)
     = fileFails t lp acc root files
         (if acc (lp r) then snd (cpToDevice t (lp r) (posixJoin root r) w) else w) i"
proof -
  have "sessionAt t lp acc root (r # files) w (Suc i)
      = sessionAt t lp acc root files
          (if acc (lp r) then snd (cpToDevice t (lp r) (posixJoin root r) w) else w) i"
  proof (cases "acc (lp r)")
    case False
    with uploadEach_session [of t lp acc root "take i files" "(0, 0 + 1)" w "(0, 0)"]
    show ?thesis by (simp add: sessionAt_def)
  next
    case True
    obtain res w1 where c: "cpToDevice t (lp r) (posixJoin root r) w = (res, w1)"
      by (cases "cpToDevice t (lp r) (posixJoin root r) w")
    show ?thesis
    proof (cases res)
      case (Inl e)
      with True c uploadEach_session [of t lp acc root "take i files" "(0, 0 + 1)" w1 "(0, 0)"]
      show ?thesis by (simp add: sessionAt_def)
    next
      case (Inr u)
      with True c uploadEach_session [of t lp acc root "take i files" "(0 + 1, 0)" w1 "(0, 0)"]
      show ?thesis by (simp add: sessionAt_def)
    qed
  qed
  then show ?thesis by (simp add: fileFails_def)
qed

lemma count_shift:
  "length (filter P [0..<Suc n]) = (if P 0 then 1 else 0) + length (filter (\<lambda>i. P (Suc i)) [0..<n])"
proof -
  have "[0..<Suc n] = 0 # map Suc [0..<n]"
    by (simp add: upt_conv_Cons map_Suc_upt del: upt_Suc)
  then show ?thesis by (simp add: filter_map comp_def del: upt_Suc)
qed

lemma uploadEach_failures:
  "snd (fst (uploadEach t lp acc root files counts w))
     = snd counts + length (filter (fileFails t lp acc root files w) [0..<length files])
   \<and> fst (fst (uploadEach t lp acc root files counts w))
     = fst counts + length (filter (\<lambda>i. \<not> fileFails t lp acc root files w i) [0..<length files])"
proof (induction files arbitrary: counts w)
  case Nil
  show ?case by simp
next
  case (Cons r files)
  define w' where "w' = (if acc (lp r) then snd (cpToDevice t (lp r) (posixJoin root r) w) else w)"
  define bad where "bad = (\<not> acc (lp r) \<or> isl (fst (cpToDevice t (lp r) (posixJoin root r) w)))"
  define counts' where "counts' = (if bad then (fst counts, snd counts + 1) else (fst counts + 1, snd counts))"
  have step: "uploadEach t lp acc root (r # files) counts w = uploadEach t lp acc root files counts' w'"
  proof (cases "acc (lp r)")
    case False
    then show ?thesis by (simp add: w'_def counts'_def bad_def)
  next
    case True
    obtain res w1 where c: "cpToDevice t (lp r) (posixJoin root r) w = (res, w1)"
      by (cases "cpToDevice t (lp r) (posixJoin root r) w")
    with True show ?thesis by (cases res) (simp_all add: w'_def counts'_def bad_def)
  qed
  have f0: "fileFails t lp acc root (r # files) w 0 = bad"
    by (simp add: fileFails_0 bad_def)
  have fS: "fileFails t lp acc root (r # files) w (Suc i) = fileFails t lp acc root files w' i" for i
    by (simp add: fileFails_Suc w'_def)
  have c1: "length (filter (fileFails t lp acc root (r # files) w) [0..<length (r # files)])
      = (if bad then 1 else 0) + length (filter (fileFails t lp acc root files w') [0..<length files])"
    using count_shift [of "fileFails t lp acc root (r # files) w" "length files"] f0 fS by simp
  have c2: "length (filter (\<lambda>i. \<not> fileFails t lp acc root (r # files) w i) [0..<length (r # files)])
      = (if bad then 0 else 1) + length (filter (\<lambda>i. \<not> fileFails t lp acc root files w' i) [0..<length files])"
    using count_shift [of "\<lambda>i. \<not> fileFails t lp acc root (r # files) w i" "length files"] f0 fS by simp
  from Cons [of counts' w'] show ?case
    unfolding step c1 c2 by (simp add: counts'_def)
qed

lemma uploadEach_keeps:
  "set (events w) \<subseteq> set (events (snd (uploadEach t lp acc root files counts w)))
   \<and> connectCfg (snd (uploadEach t lp acc root files counts w)) = connectCfg w
   \<and> toolPath (snd (uploadEach t lp acc root files counts w)) = toolPath w"
proof (induction files arbitrary: counts w)
  case Nil
  then show ?case by simp
next
  case (Cons r files)
  show ?case
  proof (cases "acc (lp r)")
    case False
    with Cons [of w "(fst counts, snd counts + 1)"] show ?thesis by simp
  next
    case True
    obtain res w1 where c: "cpToDevice t (lp r) (posixJoin root r) w = (res, w1)"
      by (cases "cpToDevice t (lp r) (posixJoin root r) w")
    from cpToDevice_keeps [of w t "lp r" "posixJoin root r"] c
    have k: "set (events w) \<subseteq> set (events w1)" "connectCfg w1 = connectCfg w" "toolPath w1 = toolPath w"
      by auto
    show ?thesis
    proof (cases res)
      case (Inl e)
      with True c k Cons [of w1 "(fst counts, snd counts + 1)"] show ?thesis by auto
    next
      case (Inr u)
      with True c k Cons [of w1 "(fst counts + 1, snd counts)"] show ?thesis by auto
    qed
  qed
qed

lemma uploadEach_attempts_all:
  assumes "toolPath w \<noteq> None" and "\<not> noPort (configuredConnect w)"
    and "r \<in> set files" and "acc (lp r)"
  shows "uploadCommand (configuredConnect w) lp root r
           \<in> set (events (snd (uploadEach t lp acc root files counts w)))"
  using assms
proof (induction files arbitrary: counts w)
  case Nil
  then show ?case by simp
next
  case (Cons x files)
  have cc: "configuredConnect v = configuredConnect w" if "connectCfg v = connectCfg w" for v
    using that by (simp add: configuredConnect_def)
  show ?case
  proof (cases "acc (lp x)")
    case False
    then have "r \<noteq> x" using Cons.prems(4) by auto
    then have "r \<in> set files" using Cons.prems(3) by simp
    from Cons.IH [OF Cons.prems(1,2) this Cons.prems(4), of "(fst counts, snd counts + 1)"] False
    show ?thesis by simp
  next
    case True
    obtain res w1 where c: "cpToDevice t (lp x) (posixJoin root x) w = (res, w1)"
      by (cases "cpToDevice t (lp x) (posixJoin root x) w")
    from cpToDevice_keeps [of w t "lp x" "posixJoin root x"] c
    have k: "set (events w) \<subseteq> set (events w1)" "connectCfg w1 = connectCfg w" "toolPath w1 = toolPath w"
      by auto
    define counts' where "counts' = (case res of Inl e \<Rightarrow> (fst counts, snd counts + 1)
                                      | Inr u \<Rightarrow> (fst counts + 1, snd counts))"
    have step: "uploadEach t lp acc root (x # files) counts w = uploadEach t lp acc root files counts' w1"
      using True c by (cases res) (simp_all add: counts'_def)
    show ?thesis
    proof (cases "r = x")
      case True
      from cpToDevice_attempts [OF Cons.prems(1,2), of "lp x" "posixJoin root x" t] c
      have "uploadCommand (configuredConnect w) lp root x \<in> set (events w1)"
        by (simp add: uploadCommand_def)
      with uploadEach_keeps [of w1 t lp acc root files counts'] True step show ?thesis by auto
    next
      case False
      then have rin: "r \<in> set files" using Cons.prems(3) by simp
      have p1: "toolPath w1 \<noteq> None" using k(3) Cons.prems(1) by simp
      have p2: "\<not> noPort (configuredConnect w1)" using cc [OF k(2)] Cons.prems(2) by simp
      from Cons.IH [OF p1 p2 rin Cons.prems(4), of counts'] cc [OF k(2)] step
      show ?thesis by simp
    qed
  qed
qed

text \<open>The report of the upload phase, started in any session.\<close>

lemma uploadFiles_report:
  "validFiles (fst (uploadFiles t lp a1 a2 root files w)) = filter (\<lambda>r. a1 (lp r)) files
   \<and> missingFiles (fst (uploadFiles t lp a1 a2 root files w)) = filter (\<lambda>r. \<not> a1 (lp r)) files
   \<and> (warned (fst (uploadFiles t lp a1 a2 root files w))
        \<longleftrightarrow> missingFiles (fst (uploadFiles t lp a1 a2 root files w)) \<noteq> [])
   \<and> failed (fst (uploadFiles t lp a1 a2 root files w))
       = length (filter (fileFails t lp a2 root (filter (\<lambda>r. a1 (lp r)) files) w)
                   [0..<length (filter (\<lambda>r. a1 (lp r)) files)])
   \<and> uploaded (fst (uploadFiles t lp a1 a2 root files w))
       = length (filter (\<lambda>i. \<not> fileFails t lp a2 root (filter (\<lambda>r. a1 (lp r)) files) w i)
                   [0..<length (filter (\<lambda>r. a1 (lp r)) files)])
   \<and> uploaded (fst (uploadFiles t lp a1 a2 root files w)) + failed (fst (uploadFiles t lp a1 a2 root files w))
       = length (filter (\<lambda>r. a1 (lp r)) files)
   \<and> length (filter (\<lambda>r. \<not> a2 (lp r)) (filter (\<lambda>r. a1 (lp r)) files))
       \<le> failed (fst (uploadFiles t lp a1 a2 root files w))
   \<and> (toolPath w \<noteq> None \<and> \<not> noPort (configuredConnect w) \<longrightarrow>
        (\<forall>r \<in> set files. a1 (lp r) \<and> a2 (lp r) \<longrightarrow>
           uploadCommand (configuredConnect w) lp root r
             \<in> set (events (snd (uploadFiles t lp a1 a2 root files w)))))"
proof -
  let ?valid = "filter (\<lambda>r. a1 (lp r)) files"
  from uploadEach_counts [of t lp a2 root ?valid "(0, 0)" w]
  have counts: "fst (fst (uploadEach t lp a2 root ?valid (0, 0) w))
                  + snd (fst (uploadEach t lp a2 root ?valid (0, 0) w)) = length ?valid"
    "length (filter (\<lambda>r. \<not> a2 (lp r)) ?valid) \<le> snd (fst (uploadEach t lp a2 root ?valid (0, 0) w))"
    by simp_all
  from uploadEach_failures [of t lp a2 root ?valid "(0, 0)" w]
  have fails: "snd (fst (uploadEach t lp a2 root ?valid (0, 0) w))
      = length (filter (fileFails t lp a2 root ?valid w) [0..<length ?valid])"
    "fst (fst (uploadEach t lp a2 root ?valid (0, 0) w))
      = length (filter (\<lambda>i. \<not> fileFails t lp a2 root ?valid w i) [0..<length ?valid])"
    by simp_all
  have attempts: "uploadCommand (configuredConnect w) lp root r
             \<in> set (events (snd (uploadEach t lp a2 root ?valid (0, 0) w)))"
    if "toolPath w \<noteq> None" "\<not> noPort (configuredConnect w)" "r \<in> set files" "a1 (lp r)" "a2 (lp r)" for r
    using uploadEach_attempts_all [OF that(1,2), of r ?valid a2 lp root t "(0, 0)"] that(3,4,5) by simp
  have 1: "validFiles (fst (uploadFiles t lp a1 a2 root files w)) = ?valid"
    and 2: "missingFiles (fst (uploadFiles t lp a1 a2 root files w)) = filter (\<lambda>r. \<not> a1 (lp r)) files"
    and 3: "warned (fst (uploadFiles t lp a1 a2 root files w))
        \<longleftrightarrow> missingFiles (fst (uploadFiles t lp a1 a2 root files w)) \<noteq> []"
    and 4: "failed (fst (uploadFiles t lp a1 a2 root files w)) = snd (fst (uploadEach t lp a2 root ?valid (0, 0) w))"
    and 5: "uploaded (fst (uploadFiles t lp a1 a2 root files w)) = fst (fst (uploadEach t lp a2 root ?valid (0, 0) w))"
    and 6: "snd (uploadFiles t lp a1 a2 root files w) = snd (uploadEach t lp a2 root ?valid (0, 0) w)"
    by (simp_all add: uploadFiles_def Let_def)
  show ?thesis
    unfolding 1 2 3 4 5 6 using counts fails attempts by (intro conjI) simp_all
qed

text \<open>
  Claim C2. For an absolute remote root the baseline transfer returns (fuel as long as
  the longest destination directory is enough for the planning loop). Its only abort is
  the one of the directory phase, before any file is copied: when planned directories
  are still missing after the second try, the error is caught and shown as a message.
  Once the directory phase has passed, the transfer completes with a report, whatever
  happens to the single files. Files missing in the first pass are set aside, with a
  warning exactly when there are any. Every other file is counted exactly once: the
  failure counter is the number of files that fail (gone when their turn comes, or their
  copy rejected), the success counter is the number of the others, and the two add up to
  the number of valid files. With a port selected and the tool found, the copy command of
  every file that is there is run, whatever happened to the files before it.
\<close>

theorem baseline_upload_tolerates_failures:
  "(rootPath \<noteq> [] \<and> hd rootPath = slash
      \<and> (\<forall>f \<in> set files. length (posixDirname (posixJoin rootPath f)) \<le> fuel)
     \<longrightarrow> syncBaseline fuel t lp a1 a2 rootPath files w \<noteq> None)
   \<and> (\<forall>plan e w1. files \<noteq> [] \<and> sortedDirectories fuel rootPath files = Some plan
          \<and> prepareDirectories t plan w = (Inl e, w1)
        \<longrightarrow> syncBaseline fuel t lp a1 a2 rootPath files w
              = Some (UploadFailed (''Upload failed: '' @ e), w1)
            \<and> startsWith e ''Missing directories after retry: '')
   \<and> (\<forall>plan w1. files \<noteq> [] \<and> sortedDirectories fuel rootPath files = Some plan
          \<and> prepareDirectories t plan w = (Inr (), w1)
        \<longrightarrow> (\<exists>report w2.
              syncBaseline fuel t lp a1 a2 rootPath files w = Some (Completed (Some report), w2)
              \<and> validFiles report = filter (\<lambda>r. a1 (lp r)) files
              \<and> missingFiles report = filter (\<lambda>r. \<not> a1 (lp r)) files
              \<and> (warned report \<longleftrightarrow> missingFiles report \<noteq> [])
              \<and> failed report
                  = length (filter (fileFails t lp a2 rootPath (validFiles report) w1)
                              [0..<length (validFiles report)])
              \<and> uploaded report
                  = length (filter (\<lambda>i. \<not> fileFails t lp a2 rootPath (validFiles report) w1 i)
                              [0..<length (validFiles report)])
              \<and> uploaded report + failed report = length (validFiles report)
              \<and> length (filter (\<lambda>r. \<not> a2 (lp r)) (validFiles report)) \<le> failed report
              \<and> (toolPath w \<noteq> None \<and> \<not> noPort (configuredConnect w) \<longrightarrow>
                   (\<forall>r \<in> set files. a1 (lp r) \<and> a2 (lp r) \<longrightarrow>
                      uploadCommand (configuredConnect w) lp rootPath r \<in> set (events w2)))))"
proof -
  have returns: "rootPath \<noteq> [] \<and> hd rootPath = slash
      \<and> (\<forall>f \<in> set files. length (posixDirname (posixJoin rootPath f)) \<le> fuel)
     \<longrightarrow> syncBaseline fuel t lp a1 a2 rootPath files w \<noteq> None"
  proof
    assume a: "rootPath \<noteq> [] \<and> hd rootPath = slash
      \<and> (\<forall>f \<in> set files. length (posixDirname (posixJoin rootPath f)) \<le> fuel)"
    then have "collectDirectories fuel rootPath files [] \<noteq> None"
      using collectDirectories_terminates [of rootPath files fuel "[]"] by simp
    then obtain plan where "sortedDirectories fuel rootPath files = Some plan"
      by (auto simp: sortedDirectories_def)
    then show "syncBaseline fuel t lp a1 a2 rootPath files w \<noteq> None"
      by (simp add: syncBaseline_def transferFiles_def split: prod.splits sum.splits)
  qed
  have aborts: "syncBaseline fuel t lp a1 a2 rootPath files w
              = Some (UploadFailed (''Upload failed: '' @ e), w1)
            \<and> startsWith e ''Missing directories after retry: ''"
    if "files \<noteq> []" "sortedDirectories fuel rootPath files = Some plan"
      "prepareDirectories t plan w = (Inl e, w1)" for plan e w1
    using that prepareDirectories_rejection [OF that(3)]
    by (simp add: syncBaseline_def transferFiles_def)
  have completes: "\<exists>report w2.
              syncBaseline fuel t lp a1 a2 rootPath files w = Some (Completed (Some report), w2)
              \<and> validFiles report = filter (\<lambda>r. a1 (lp r)) files
              \<and> missingFiles report = filter (\<lambda>r. \<not> a1 (lp r)) files
              \<and> (warned report \<longleftrightarrow> missingFiles report \<noteq> [])
              \<and> failed report
                  = length (filter (fileFails t lp a2 rootPath (validFiles report) w1)
                              [0..<length (validFiles report)])
              \<and> uploaded report
                  = length (filter (\<lambda>i. \<not> fileFails t lp a2 rootPath (validFiles report) w1 i)
                              [0..<length (validFiles report)])
              \<and> uploaded report + failed report = length (validFiles report)
              \<and> length (filter (\<lambda>r. \<not> a2 (lp r)) (validFiles report)) \<le> failed report
              \<and> (toolPath w \<noteq> None \<and> \<not> noPort (configuredConnect w) \<longrightarrow>
                   (\<forall>r \<in> set files. a1 (lp r) \<and> a2 (lp r) \<longrightarrow>
                      uploadCommand (configuredConnect w) lp rootPath r \<in> set (events w2)))"
    if "files \<noteq> []" "sortedDirectories fuel rootPath files = Some plan"
      "prepareDirectories t plan w = (Inr (), w1)" for plan w1
  proof -
    define report where "report = fst (uploadFiles t lp a1 a2 rootPath files w1)"
    define w2 where "w2 = snd (uploadFiles t lp a1 a2 rootPath files w1)"
    have res: "syncBaseline fuel t lp a1 a2 rootPath files w = Some (Completed (Some report), w2)"
      using that by (simp add: syncBaseline_def transferFiles_def report_def w2_def split: prod.splits)
    from emitsD [OF emits_prepareDirectories, of t plan w] that(3)
    have keep: "toolPath w1 = toolPath w" "connectCfg w1 = connectCfg w" by auto
    then have cc: "configuredConnect w1 = configuredConnect w"
      by (simp add: configuredConnect_def)
    note rep = uploadFiles_report [of t lp a1 a2 rootPath files w1, folded report_def w2_def]
    from rep have v: "validFiles report = filter (\<lambda>r. a1 (lp r)) files" by blast
    from rep keep(1) cc
    have "validFiles report = filter (\<lambda>r. a1 (lp r)) files
              \<and> missingFiles report = filter (\<lambda>r. \<not> a1 (lp r)) files
              \<and> (warned report \<longleftrightarrow> missingFiles report \<noteq> [])
              \<and> failed report
                  = length (filter (fileFails t lp a2 rootPath (validFiles report) w1)
                              [0..<length (validFiles report)])
              \<and> uploaded report
                  = length (filter (\<lambda>i. \<not> fileFails t lp a2 rootPath (validFiles report) w1 i)
                              [0..<length (validFiles report)])
              \<and> uploaded report + failed report = length (validFiles report)
              \<and> length (filter (\<lambda>r. \<not> a2 (lp r)) (validFiles report)) \<le> failed report
              \<and> (toolPath w \<noteq> None \<and> \<not> noPort (configuredConnect w) \<longrightarrow>
                   (\<forall>r \<in> set files. a1 (lp r) \<and> a2 (lp r) \<longrightarrow>
                      uploadCommand (configuredConnect w) lp rootPath r \<in> set (events w2)))"
      unfolding v by simp
    with res show ?thesis by blast
  qed
  from returns aborts completes show ?thesis by blast
qed

theorem baseline_upload_tolerates_failures_witness:
  "''/'' \<noteq> [] \<and> hd ''/'' = slash
   \<and> fiveFiles \<noteq> [] \<and> sortedDirectories 10 ''/'' fiveFiles = Some []
   \<and> prepareDirectories toolOk [] portWorld = (Inr (), portWorld)
   \<and> toolPath portWorld \<noteq> None \<and> \<not> noPort (configuredConnect portWorld)
   \<and> map_option fst (syncBaseline 10 toolOk underWs allThere cGone ''/'' fiveFiles portWorld)
       = Some (Completed (Some \<lparr>validFiles = [''a.py'', ''b.py'', ''c.py'', ''d.py'', ''e.py''],
                               missingFiles = [], warned = False, uploaded = 4, failed = 1\<rparr>))
   \<and> map (fileFails toolOk underWs cGone ''/'' fiveFiles portWorld) [0..<5]
       = [False, False, True, False, False]
   \<and> map_option (events \<circ> snd) (syncBaseline 10 toolOk underWs allThere cGone ''/'' fiveFiles portWorld)
       = Some [Exec [''connect'', ''/dev/ttyUSB0'', ''fs'', ''cp'', ''/ws/a.py'', '':/a.py''],
               Exec [''connect'', ''/dev/ttyUSB0'', ''fs'', ''cp'', ''/ws/b.py'', '':/b.py''],
               Exec [''connect'', ''/dev/ttyUSB0'', ''fs'', ''cp'', ''/ws/d.py'', '':/d.py''],
               Exec [''connect'', ''/dev/ttyUSB0'', ''fs'', ''cp'', ''/ws/e.py'', '':/e.py'']]
   \<and> libFiles \<noteq> [] \<and> sortedDirectories 10 ''/'' libFiles = Some [''/lib'']
   \<and> prepareDirectories toolNoRoomForC [''/lib''] portWorld
       = (Inr (), portWorld\<lparr>cache := None, lastTreeUpdate := 0,
                             events := [Exec [''connect'', ''/dev/ttyUSB0'', ''fs'', ''mkdir'', ''/lib''],
                                        Exec [''connect'', ''/dev/ttyUSB0'', ''fs'', ''stat'', ''/lib'']]\<rparr>)
   \<and> map_option fst (syncBaseline 10 toolNoRoomForC underWs allThere allThere ''/'' libFiles portWorld)
       = Some (Completed (Some \<lparr>validFiles = [''a.py'', ''lib/b.py'', ''lib/c.py'', ''lib/d.py'', ''e.py''],
                               missingFiles = [], warned = False, uploaded = 4, failed = 1\<rparr>))
   \<and> map_option (events \<circ> snd)
         (syncBaseline 10 toolNoRoomForC underWs allThere allThere ''/'' libFiles portWorld)
       = Some [Exec [''connect'', ''/dev/ttyUSB0'', ''fs'', ''mkdir'', ''/lib''],
               Exec [''connect'', ''/dev/ttyUSB0'', ''fs'', ''stat'', ''/lib''],
               Exec [''connect'', ''/dev/ttyUSB0'', ''fs'', ''cp'', ''/ws/a.py'', '':/a.py''],
               Exec [''connect'', ''/dev/ttyUSB0'', ''fs'', ''mkdir'', ''-p'', ''/lib''],
               Exec [''connect'', ''/dev/ttyUSB0'', ''fs'', ''cp'', ''/ws/lib/b.py'', '':/lib/b.py''],
               Exec [''connect'', ''/dev/ttyUSB0'', ''fs'', ''mkdir'', ''-p'', ''/lib''],
               Exec [''connect'', ''/dev/ttyUSB0'', ''fs'', ''cp'', ''/ws/lib/c.py'', '':/lib/c.py''],
               Exec [''connect'', ''/dev/ttyUSB0'', ''fs'', ''mkdir'', ''-p'', ''/lib''],
               Exec [''connect'', ''/dev/ttyUSB0'', ''fs'', ''cp'', ''/ws/lib/d.py'', '':/lib/d.py''],
               Exec [''connect'', ''/dev/ttyUSB0'', ''fs'', ''cp'', ''/ws/e.py'', '':/e.py'']]
   \<and> uploadCommand (configuredConnect portWorld) underWs ''/'' ''lib/d.py''
       = Exec [''connect'', ''/dev/ttyUSB0'', ''fs'', ''cp'', ''/ws/lib/d.py'', '':/lib/d.py'']
   \<and> prepareDirectories toolDown [''/lib''] autoWorld
       = (Inl ''Missing directories after retry: /lib'', autoWorld\<lparr>events := [Delay 100, Delay 100]\<rparr>)
   \<and> syncBaseline 10 toolDown underWs allThere allThere ''/'' libFiles autoWorld
       = Some (UploadFailed ''Upload failed: Missing directories after retry: /lib'',
               autoWorld\<lparr>events := [Delay 100, Delay 100]\<rparr>)"
proof -
  have 1: "''/'' \<noteq> [] \<and> hd ''/'' = slash" by code_simp
  have 2: "fiveFiles \<noteq> [] \<and> sortedDirectories 10 ''/'' fiveFiles = Some []" by code_simp
  have 3: "prepareDirectories toolOk [] portWorld = (Inr (), portWorld)" by code_simp
  have 4: "toolPath portWorld \<noteq> None \<and> \<not> noPort (configuredConnect portWorld)" by code_simp
  have 5: "map_option fst (syncBaseline 10 toolOk underWs allThere cGone ''/'' fiveFiles portWorld)
       = Some (Completed (Some \<lparr>validFiles = [''a.py'', ''b.py'', ''c.py'', ''d.py'', ''e.py''],
                               missingFiles = [], warned = False, uploaded = 4, failed = 1\<rparr>))"
    by code_simp
  have 6: "map (fileFails toolOk underWs cGone ''/'' fiveFiles portWorld) [0..<5]
       = [False, False, True, False, False]"
    by code_simp
  have 7: "map_option (events \<circ> snd) (syncBaseline 10 toolOk underWs allThere cGone ''/'' fiveFiles portWorld)
       = Some [Exec [''connect'', ''/dev/ttyUSB0'', ''fs'', ''cp'', ''/ws/a.py'', '':/a.py''],
               Exec [''connect'', ''/dev/ttyUSB0'', ''fs'', ''cp'', ''/ws/b.py'', '':/b.py''],
               Exec [''connect'', ''/dev/ttyUSB0'', ''fs'', ''cp'', ''/ws/d.py'', '':/d.py''],
               Exec [''connect'', ''/dev/ttyUSB0'', ''fs'', ''cp'', ''/ws/e.py'', '':/e.py'']]"
    by code_simp
  have 8: "libFiles \<noteq> [] \<and> sortedDirectories 10 ''/'' libFiles = Some [''/lib'']" by code_simp
  have 9: "prepareDirectories toolNoRoomForC [''/lib''] portWorld
       = (Inr (), portWorld\<lparr>cache := None, lastTreeUpdate := 0,
                             events := [Exec [''connect'', ''/dev/ttyUSB0'', ''fs'', ''mkdir'', ''/lib''],
                                        Exec [''connect'', ''/dev/ttyUSB0'', ''fs'', ''stat'', ''/lib'']]\<rparr>)"
    by code_simp
  have 10: "map_option fst (syncBaseline 10 toolNoRoomForC underWs allThere allThere ''/'' libFiles portWorld)
       = Some (Completed (Some \<lparr>validFiles = [''a.py'', ''lib/b.py'', ''lib/c.py'', ''lib/d.py'', ''e.py''],
                               missingFiles = [], warned = False, uploaded = 4, failed = 1\<rparr>))"
    by code_simp
  have 11: "uploadCommand (configuredConnect portWorld) underWs ''/'' ''lib/d.py''
       = Exec [''connect'', ''/dev/ttyUSB0'', ''fs'', ''cp'', ''/ws/lib/d.py'', '':/lib/d.py'']"
    by code_simp
  have 12: "prepareDirectories toolDown [''/lib''] autoWorld
       = (Inl ''Missing directories after retry: /lib'', autoWorld\<lparr>events := [Delay 100, Delay 100]\<rparr>)"
    by code_simp
  have 13: "syncBaseline 10 toolDown underWs allThere allThere ''/'' libFiles autoWorld
       = Some (UploadFailed ''Upload failed: Missing directories after retry: /lib'',
               autoWorld\<lparr>events := [Delay 100, Delay 100]\<rparr>)"
    by code_simp
  have 14: "map_option (events \<circ> snd)
         (syncBaseline 10 toolNoRoomForC underWs allThere allThere ''/'' libFiles portWorld)
       = Some [Exec [''connect'', ''/dev/ttyUSB0'', ''fs'', ''mkdir'', ''/lib''],
               Exec [''connect'', ''/dev/ttyUSB0'', ''fs'', ''stat'', ''/lib''],
               Exec [''connect'', ''/dev/ttyUSB0'', ''fs'', ''cp'', ''/ws/a.py'', '':/a.py''],
               Exec [''connect'', ''/dev/ttyUSB0'', ''fs'', ''mkdir'', ''-p'', ''/lib''],
               Exec [''connect'', ''/dev/ttyUSB0'', ''fs'', ''cp'', ''/ws/lib/b.py'', '':/lib/b.py''],
               Exec [''connect'', ''/dev/ttyUSB0'', ''fs'', ''mkdir'', ''-p'', ''/lib''],
               Exec [''connect'', ''/dev/ttyUSB0'', ''fs'', ''cp'', ''/ws/lib/c.py'', '':/lib/c.py''],
               Exec [''connect'', ''/dev/ttyUSB0'', ''fs'', ''mkdir'', ''-p'', ''/lib''],
               Exec [''connect'', ''/dev/ttyUSB0'', ''fs'', ''cp'', ''/ws/lib/d.py'', '':/lib/d.py''],
               Exec [''connect'', ''/dev/ttyUSB0'', ''fs'', ''cp'', ''/ws/e.py'', '':/e.py'']]"
    by code_simp
  from baseline_upload_tolerates_failures
         [of "''/''" fiveFiles 10 toolOk underWs allThere cGone portWorld]
       baseline_upload_tolerates_failures
         [of "''/''" libFiles 10 toolNoRoomForC underWs allThere allThere portWorld]
       baseline_upload_tolerates_failures
         [of "''/''" libFiles 10 toolDown underWs allThere allThere autoWorld]
       1 2 3 4 5 6 7 8 9 10 11 12 13 14
  show ?thesis by blast
qed


end
